theory Spec2Isabelle
  imports Complex_Main "HOL-Library.Sublist"
begin

section \<open>JavaScript strings\<close>

text \<open>
  The handlers of \<^verbatim>\<open>backend/server.js\<close> work on entry names with
  \<^verbatim>\<open>split('/')\<close>, \<^verbatim>\<open>slice(0, -1)\<close>, \<^verbatim>\<open>join('/')\<close>,
  \<^verbatim>\<open>startsWith\<close> and \<^verbatim>\<open>substring\<close>. A string is a list of characters.
\<close>

fun split_at :: "char \<Rightarrow> string \<Rightarrow> string list" where
  "split_at c [] = [[]]"
| "split_at c (x # xs) =
     (if x = c then [] # split_at c xs
      else (case split_at c xs of [] \<Rightarrow> [[x]] | w # ws \<Rightarrow> (x # w) # ws))"

fun join_with :: "char \<Rightarrow> string list \<Rightarrow> string" where
  "join_with c [] = []"
| "join_with c [w] = w"
| "join_with c (w # v # ws) = w @ c # join_with c (v # ws)"

definition startsWith :: "string \<Rightarrow> string \<Rightarrow> bool" where
  "startsWith s p = (take (length p) s = p)"

definition substring :: "string \<Rightarrow> nat \<Rightarrow> string" where
  "substring s n = drop n s"

definition digit_char :: "nat \<Rightarrow> char" where
  "digit_char d = char_of (48 + d)"

text \<open>The decimal text of a non-negative integer, as string concatenation produces it.\<close>

fun String_of_nat :: "nat \<Rightarrow> string" where
  "String_of_nat n =
     (if n < 10 then [digit_char n]
      else String_of_nat (n div 10) @ [digit_char (n mod 10)])"

declare String_of_nat.simps [simp del]

section \<open>Node's path module (POSIX)\<close>

text \<open>
  \<^verbatim>\<open>path.join\<close>, \<^verbatim>\<open>path.dirname\<close> and \<^verbatim>\<open>path.basename\<close> belong to the
  runtime, not to the repository. They are written out here after the behaviour of the POSIX
  variant: \<^verbatim>\<open>join\<close> puts a slash between its non-empty arguments and normalises;
  normalising drops empty and \<^verbatim>\<open>.\<close> segments and lets \<^verbatim>\<open>..\<close> cancel the
  segment before it.
\<close>

definition normalize_step :: "bool \<Rightarrow> string list \<Rightarrow> string \<Rightarrow> string list" where
  "normalize_step allowAboveRoot res seg =
     (if seg = [] \<or> seg = ''.'' then res
      else if seg = ''..'' then
        (if res \<noteq> [] \<and> last res \<noteq> ''..'' then butlast res
         else if allowAboveRoot then res @ [''..'']
         else res)
      else res @ [seg])"

definition normalizeString :: "string \<Rightarrow> bool \<Rightarrow> string" where
  "normalizeString p allowAboveRoot =
     join_with CHR ''/'' (foldl (normalize_step allowAboveRoot) [] (split_at CHR ''/'' p))"

definition path_normalize :: "string \<Rightarrow> string" where
  "path_normalize p =
     (if p = [] then ''.''
      else
        let isAbsolute = (hd p = CHR ''/'');
            trailingSeparator = (last p = CHR ''/'');
            q = normalizeString p (\<not> isAbsolute)
        in if q = [] then
             (if isAbsolute then ''/'' else if trailingSeparator then ''./'' else ''.'')
           else (if isAbsolute then ''/'' else []) @ q
                @ (if trailingSeparator then ''/'' else []))"

definition path_join :: "string \<Rightarrow> string \<Rightarrow> string" where
  "path_join a b =
     (if a = [] \<and> b = [] then ''.''
      else if a = [] then path_normalize b
      else if b = [] then path_normalize a
      else path_normalize (a @ CHR ''/'' # b))"

definition path_basename :: "string \<Rightarrow> string" where
  "path_basename p =
     rev (takeWhile (\<lambda>c. c \<noteq> CHR ''/'') (dropWhile (\<lambda>c. c = CHR ''/'') (rev p)))"

definition path_dirname :: "string \<Rightarrow> string" where
  "path_dirname p =
     (if p = [] then ''.''
      else
        let hasRoot = (hd p = CHR ''/'');
            r = dropWhile (\<lambda>c. c \<noteq> CHR ''/'')
                  (dropWhile (\<lambda>c. c = CHR ''/'') (rev (tl p)))
        in if r = [] then (if hasRoot then ''/'' else ''.'')
           else if hasRoot \<and> length r = 1 then ''//''
           else take (length r) p)"

section \<open>JSON values\<close>

text \<open>
  What \<^verbatim>\<open>JSON.parse\<close> returns. A number is taken as the rational it denotes.
\<close>

datatype json =
    JNull
  | JBool bool
  | JNum rat
  | JStr string
  | JArr "json list"
  | JObj "(string \<times> json) list"

text \<open>JavaScript truthiness of a parsed value.\<close>

fun truthy :: "json \<Rightarrow> bool" where
  "truthy JNull = False"
| "truthy (JBool b) = b"
| "truthy (JNum n) = (n \<noteq> 0)"
| "truthy (JStr s) = (s \<noteq> [])"
| "truthy (JArr xs) = True"
| "truthy (JObj kvs) = True"

text \<open>
  \<^verbatim>\<open>a || b\<close> where \<open>a\<close> is the result of a property read: \<open>None\<close> stands for
  \<^verbatim>\<open>undefined\<close>.
\<close>

definition or_else :: "json option \<Rightarrow> json \<Rightarrow> json" where
  "or_else a b = (case a of None \<Rightarrow> b | Some v \<Rightarrow> if truthy v then v else b)"

section \<open>Data model\<close>

text \<open>
  An entry of a leaderboard. The schema does not require a score and the handler does not
  check the one it is sent: \<open>score\<close> is the number the entry carries, taken as the
  rational it denotes, and \<open>None\<close> when the entry carries no number (the property is
  \<^verbatim>\<open>undefined\<close>).
\<close>

record lb_entry =
  userId :: string
  name :: json
  score :: "rat option"
  createdAt :: nat

record lesson =
  lesson_title :: json
  lesson_content :: json

text \<open>
  A document of \<^verbatim>\<open>GameSchema\<close>. The fields hold the values handed to
  \<^verbatim>\<open>Game.create\<close>; the identifier and creation date that the database layer adds are
  left out, the identifier of a game being its position in the collection.
\<close>

record game =
  title :: json
  description :: json
  category :: json
  tags :: json
  filePath :: string
  lesson :: lesson
  quizzes :: json
  leaderboard :: "lb_entry list"

record entry =
  entryName :: string
  isDirectory :: bool
  content :: string

record user =
  user_id :: string
  role :: string
  email :: string

datatype auth = NoToken | InvalidToken | Verified user

record upload =
  file_path :: string
  zip_entries :: "entry list option"

record request =
  req_auth :: auth
  req_file :: "upload option"

section \<open>Effects\<close>

datatype fs_op =
    Mkdir string
  | WriteFile string string
  | Readdir string
  | Rename string string
  | Unlink string

datatype exn = ZipError | IOError fs_op | TypeError | CreateError

text \<open>
  The world the handlers act on: the file system calls that have succeeded so far, in order,
  the game collection, and how often the clock has been read.
\<close>

record world =
  fs_log :: "fs_op list"
  games :: "game list"
  clock_reads :: nat

text \<open>
  What the handlers cannot decide themselves is a parameter: the JSON parser (\<open>None\<close> when
  \<^verbatim>\<open>JSON.parse\<close> throws), which file system calls raise (given the calls made so
  far), which documents the database layer rejects, the clock, and the upload directory.
\<close>

record env =
  JSON_parse :: "string \<Rightarrow> json option"
  fs_raises :: "fs_op list \<Rightarrow> fs_op \<Rightarrow> bool"
  create_rejects :: "game list \<Rightarrow> game \<Rightarrow> bool"
  Date_now :: "nat \<Rightarrow> nat"
  uploadDir :: string

text \<open>A statement either completes with a value or throws; the world is kept either way.\<close>

datatype 'a outcome = Done 'a world | Raised exn world

definition and_then :: "'a outcome \<Rightarrow> ('a \<Rightarrow> world \<Rightarrow> 'b outcome) \<Rightarrow> 'b outcome" where
  "and_then m f = (case m of Done x w \<Rightarrow> f x w | Raised e w \<Rightarrow> Raised e w)"

definition fs_call :: "env \<Rightarrow> fs_op \<Rightarrow> world \<Rightarrow> unit outcome" where
  "fs_call E op w =
     (if fs_raises E (fs_log w) op then Raised (IOError op) w
      else Done () (w\<lparr>fs_log := fs_log w @ [op]\<rparr>))"

definition read_clock :: "env \<Rightarrow> world \<Rightarrow> nat \<times> world" where
  "read_clock E w = (Date_now E (clock_reads w), w\<lparr>clock_reads := Suc (clock_reads w)\<rparr>)"

definition Game_create :: "env \<Rightarrow> game \<Rightarrow> world \<Rightarrow> game outcome" where
  "Game_create E g w =
     (if create_rejects E (games w) g then Raised CreateError w
      else Done g (w\<lparr>games := games w @ [g]\<rparr>))"



section \<open>Responses\<close>

datatype body =
    Error string
  | Imported nat "game list"
  | Leaderboard "lb_entry list"

datatype response = Response nat body

definition authMiddleware ::
  "auth \<Rightarrow> (user \<Rightarrow> world \<Rightarrow> response \<times> world) \<Rightarrow> world \<Rightarrow> response \<times> world" where
  "authMiddleware a next w =
     (case a of
        NoToken \<Rightarrow> (Response 401 (Error ''Unauthorized''), w)
      | InvalidToken \<Rightarrow> (Response 401 (Error ''Invalid token''), w)
      | Verified u \<Rightarrow> next u w)"

section \<open>Leaderboard submission\<close>


text \<open>
  \<^verbatim>\<open>Array.prototype.sort\<close> with a comparator is a stable sort: \<open>a\<close> is put behind
  \<open>b\<close> only when the comparator is positive on \<open>(a, b)\<close>. A comparator result of
  \<^verbatim>\<open>NaN\<close> counts as \<open>+0\<close>.
\<close>

fun insert_by :: "('a \<Rightarrow> 'a \<Rightarrow> rat option) \<Rightarrow> 'a \<Rightarrow> 'a list \<Rightarrow> 'a list" where
  "insert_by cmp x [] = [x]"
| "insert_by cmp x (y # ys) =
     (case cmp x y of
        None \<Rightarrow> x # y # ys
      | Some v \<Rightarrow> if v > 0 then y # insert_by cmp x ys else x # y # ys)"


definition slice :: "nat \<Rightarrow> nat \<Rightarrow> 'a list \<Rightarrow> 'a list" where
  "slice i j xs = drop i (take j xs)"



section \<open>Bulk import of a ZIP archive\<close>

text \<open>
  The condition of the loop of \<^verbatim>\<open>POST /api/admin/bulk-upload\<close> on an entry that is
  not a directory, and the folder it computes.
\<close>

definition parts :: "entry \<Rightarrow> string list" where
  "parts e = split_at CHR ''/'' (entryName e)"

definition is_manifest :: "entry \<Rightarrow> bool" where
  "is_manifest e = (length (parts e) \<ge> 2 \<and> last (parts e) = ''metadata.json'')"

definition folder_of :: "entry \<Rightarrow> string" where
  "folder_of e = join_with CHR ''/'' (butlast (parts e))"

text \<open>
  Reading a property of the parsed value: \<^verbatim>\<open>null\<close> throws a TypeError, an object
  gives the member or \<^verbatim>\<open>undefined\<close>, any other value \<^verbatim>\<open>undefined\<close>.
\<close>

fun get_prop :: "json \<Rightarrow> string \<Rightarrow> world \<Rightarrow> json option outcome" where
  "get_prop JNull k w = Raised TypeError w"
| "get_prop (JObj kvs) k w = Done (map_of kvs k) w"
| "get_prop v k w = Done None w"

text \<open>The object literal handed to \<^verbatim>\<open>Game.create\<close>, its properties read in order.\<close>

definition game_literal :: "json \<Rightarrow> string \<Rightarrow> world \<Rightarrow> game outcome" where
  "game_literal meta serveUrl w0 =
     and_then (get_prop meta ''title'' w0) (\<lambda>t w.
     and_then (get_prop meta ''description'' w) (\<lambda>d w.
     and_then (get_prop meta ''category'' w) (\<lambda>c w.
     and_then (get_prop meta ''tags'' w) (\<lambda>tg w.
     and_then (get_prop meta ''lessonTitle'' w) (\<lambda>lt w.
     and_then (get_prop meta ''lessonContent'' w) (\<lambda>lc w.
     and_then (get_prop meta ''quizzes'' w) (\<lambda>q w.
       Done \<lparr>title = or_else t (JStr ''Untitled''),
             description = or_else d (JStr []),
             category = or_else c (JStr []),
             tags = or_else tg (JArr []),
             filePath = serveUrl,
             lesson = \<lparr>lesson_title = or_else lt (JStr []),
                       lesson_content = or_else lc (JStr [])\<rparr>,
             quizzes = or_else q (JArr []),
             leaderboard = []\<rparr> w)))))))"

text \<open>The \<^verbatim>\<open>forEach\<close> over the entries of one folder.\<close>

fun extract_files :: "env \<Rightarrow> string \<Rightarrow> string \<Rightarrow> entry list \<Rightarrow> world \<Rightarrow> unit outcome" where
  "extract_files E targetFolder folder [] w = Done () w"
| "extract_files E targetFolder folder (en # ens) w =
     (let rel = substring (entryName en) (length folder + 1)
      in if isDirectory en then extract_files E targetFolder folder ens w
         else
           let outPath = path_join targetFolder rel
           in and_then (fs_call E (Mkdir (path_dirname outPath)) w) (\<lambda>_ w1.
              and_then (fs_call E (WriteFile outPath (content en)) w1) (\<lambda>_ w2.
                extract_files E targetFolder folder ens w2)))"

definition targetFolder_of :: "env \<Rightarrow> string \<Rightarrow> nat \<Rightarrow> string" where
  "targetFolder_of E folder t = path_join (uploadDir E) (folder @ ''_'' @ String_of_nat t)"

definition serveUrl_of :: "string \<Rightarrow> string" where
  "serveUrl_of targetFolder = ''/games/files/'' @ path_basename targetFolder @ ''/index.html''"

definition destDir_of :: "env \<Rightarrow> string \<Rightarrow> string" where
  "destDir_of E targetFolder = path_join (uploadDir E) (path_basename targetFolder)"

text \<open>The body of the loop for one manifest that has parsed.\<close>

definition import_folder :: "env \<Rightarrow> entry list \<Rightarrow> string \<Rightarrow> json \<Rightarrow> world \<Rightarrow> game outcome" where
  "import_folder E entries folder meta w0 =
     (let (t, w) = read_clock E w0;
          targetFolder = targetFolder_of E folder t
      in and_then (fs_call E (Mkdir targetFolder) w) (\<lambda>_ w1.
         and_then (extract_files E targetFolder folder
                     (filter (\<lambda>en. startsWith (entryName en) (folder @ ''/'')) entries) w1) (\<lambda>_ w2.
         and_then (fs_call E (Readdir targetFolder) w2) (\<lambda>_ w3.
         and_then (fs_call E (Rename targetFolder (destDir_of E targetFolder)) w3) (\<lambda>_ w4.
         and_then (game_literal meta (serveUrl_of targetFolder) w4) (\<lambda>doc w5.
           Game_create E doc w5))))))"

fun scan :: "env \<Rightarrow> entry list \<Rightarrow> entry list \<Rightarrow> game list \<Rightarrow> world \<Rightarrow> game list outcome" where
  "scan E entries [] created w = Done created w"
| "scan E entries (e # rest) created w =
     (if isDirectory e then scan E entries rest created w
      else if is_manifest e then
        (case JSON_parse E (content e) of
           None \<Rightarrow> scan E entries rest created w
         | Some meta \<Rightarrow>
             and_then (import_folder E entries (folder_of e) meta w) (\<lambda>g w1.
               scan E entries rest (created @ [g]) w1))
      else scan E entries rest created w)"

text \<open>The \<^verbatim>\<open>try\<close> block of the handler.\<close>

definition try_import :: "env \<Rightarrow> upload \<Rightarrow> world \<Rightarrow> response outcome" where
  "try_import E f w =
     (case zip_entries f of
        None \<Rightarrow> Raised ZipError w
      | Some entries \<Rightarrow>
          and_then (scan E entries entries [] w) (\<lambda>created w1.
          and_then (fs_call E (Unlink (file_path f)) w1) (\<lambda>_ w2.
            Done (Response 200 (Imported (length created) (slice 0 20 created))) w2)))"

definition bulk_upload :: "env \<Rightarrow> request \<Rightarrow> world \<Rightarrow> response \<times> world" where
  "bulk_upload E req =
     authMiddleware (req_auth req) (\<lambda>u w.
       if role u \<noteq> ''admin'' then (Response 403 (Error ''Forbidden''), w)
       else case req_file req of
              None \<Rightarrow> (Response 400 (Error ''No file''), w)
            | Some f \<Rightarrow>
                (case try_import E f w of
                   Done r w' \<Rightarrow> (r, w')
                 | Raised e w' \<Rightarrow> (Response 500 (Error ''Failed processing zip''), w')))"

section \<open>The import as the specification describes it\<close>

text \<open>
  The specification splits the loop in two: a manifest parser that yields the pairs of folder
  identifier and parsed manifest in the order the entries were met, and an import of each
  pair in turn. The two definitions below follow that description; they are compared with
  \<open>scan\<close> further down.
\<close>

definition manifest_pairs :: "env \<Rightarrow> entry list \<Rightarrow> (string \<times> json) list" where
  "manifest_pairs E es =
     concat (map (\<lambda>e. if isDirectory e \<or> \<not> is_manifest e then []
                       else (case JSON_parse E (content e) of
                               None \<Rightarrow> []
                             | Some meta \<Rightarrow> [(folder_of e, meta)])) es)"

fun import_each ::
  "env \<Rightarrow> entry list \<Rightarrow> (string \<times> json) list \<Rightarrow> game list \<Rightarrow> world \<Rightarrow> game list outcome" where
  "import_each E entries [] created w = Done created w"
| "import_each E entries ((folder, meta) # ps) created w =
     and_then (import_folder E entries folder meta w) (\<lambda>g w1.
       import_each E entries ps (created @ [g]) w1)"

text \<open>
  The value a manifest has under a key, if any: an object has its members, any other value
  that is not \<open>null\<close> has none of the keys the import reads.
\<close>

definition own_property :: "json \<Rightarrow> string \<Rightarrow> json option" where
  "own_property v k = (case v of JObj kvs \<Rightarrow> map_of kvs k | _ \<Rightarrow> None)"


text \<open>
  The file system calls of the \<^verbatim>\<open>forEach\<close> over the entries of a folder when none
  of them raises: for every entry that is not a directory, the directory of its target path
  is created and its content is written to that path.
\<close>

fun folder_writes :: "string \<Rightarrow> string \<Rightarrow> entry list \<Rightarrow> fs_op list" where
  "folder_writes targetFolder folder [] = []"
| "folder_writes targetFolder folder (en # ens) =
     (if isDirectory en then []
      else [Mkdir (path_dirname
                     (path_join targetFolder (substring (entryName en) (length folder + 1)))),
            WriteFile (path_join targetFolder (substring (entryName en) (length folder + 1)))
              (content en)])
     @ folder_writes targetFolder folder ens"

text \<open>A path is inside a directory when it is the directory or continues it after a slash.\<close>

definition inside_folder :: "string \<Rightarrow> string \<Rightarrow> bool" where
  "inside_folder d p = (p = d \<or> prefix (d @ ''/'') p)"

text \<open>A path segment that normalisation keeps as it is.\<close>

definition plain_segment :: "string \<Rightarrow> bool" where
  "plain_segment s = (s \<noteq> [] \<and> s \<noteq> ''.'' \<and> s \<noteq> ''..'' \<and> CHR ''/'' \<notin> set s)"

text \<open>A list of file system calls that only creates directories and writes files.\<close>

definition writes_only :: "fs_op list \<Rightarrow> bool" where
  "writes_only ops =
     (\<forall>op \<in> set ops. case op of Mkdir p \<Rightarrow> True | WriteFile p b \<Rightarrow> True | _ \<Rightarrow> False)"

text \<open>
  The references the specification expects for a sequence of manifests: one per manifest, in
  order, each below the folder materialised at the clock reading of its turn.
\<close>

fun expected_paths :: "env \<Rightarrow> nat \<Rightarrow> (string \<times> json) list \<Rightarrow> string list" where
  "expected_paths E k [] = []"
| "expected_paths E k ((folder, meta) # ps) =
     serveUrl_of (targetFolder_of E folder (Date_now E k)) # expected_paths E (Suc k) ps"

section \<open>Sample inputs\<close>






text \<open>
  The parser on the texts used below: it agrees with \<^verbatim>\<open>JSON.parse\<close> on the empty
  object, an object with a title, the literal \<^verbatim>\<open>null\<close> and a truncated object.
\<close>

definition sample_parse :: "string \<Rightarrow> json option" where
  \<open>sample_parse s =
     (if s = ''{}'' then Some (JObj [])
      else if s = ''{"title":"Add"}'' then Some (JObj [(''title'', JStr ''Add'')])
      else if s = ''null'' then Some JNull
      else None)\<close>

definition quiet_env :: env where
  "quiet_env = \<lparr>JSON_parse = sample_parse,
                fs_raises = (\<lambda>log op. False),
                create_rejects = (\<lambda>gs g. False),
                Date_now = (\<lambda>k. 100 + k),
                uploadDir = ''/srv/uploads''\<rparr>"

definition failing_env :: env where
  "failing_env = quiet_env\<lparr>fs_raises :=
     (\<lambda>log op. op = WriteFile ''/srv/uploads/bad_101/index.html'' ''<html></html>'')\<rparr>"

definition file_entry :: "string \<Rightarrow> string \<Rightarrow> entry" where
  "file_entry n c = \<lparr>entryName = n, isDirectory = False, content = c\<rparr>"

definition admin_user :: user where
  "admin_user = \<lparr>user_id = ''u0'', role = ''admin'', email = ''root@example.org''\<rparr>"

definition sample_upload :: "entry list \<Rightarrow> upload" where
  "sample_upload es = \<lparr>file_path = ''/srv/uploads/3f2a'', zip_entries = Some es\<rparr>"

definition admin_request :: "entry list \<Rightarrow> request" where
  "admin_request es = \<lparr>req_auth = Verified admin_user, req_file = Some (sample_upload es)\<rparr>"

definition fresh_world :: world where
  "fresh_world = \<lparr>fs_log = [], games = [], clock_reads = 0\<rparr>"

definition untitled_record :: "string \<Rightarrow> game" where
  "untitled_record url =
     \<lparr>title = JStr ''Untitled'', description = JStr [], category = JStr [], tags = JArr [],
      filePath = url, lesson = \<lparr>lesson_title = JStr [], lesson_content = JStr []\<rparr>,
      quizzes = JArr [], leaderboard = []\<rparr>"

definition mathgame_archive :: "entry list" where
  \<open>mathgame_archive =
     [file_entry ''mathgame/metadata.json'' ''{"title":"Add"}'',
      file_entry ''mathgame/index.html'' ''<html></html>'']\<close>

definition mathgame_record :: game where
  "mathgame_record = (untitled_record ''/games/files/mathgame_100/index.html'')\<lparr>title := JStr ''Add''\<rparr>"

definition first_folder :: "entry list" where
  "first_folder =
     [file_entry ''first/metadata.json'' ''{}'', file_entry ''first/index.html'' ''<html></html>'']"

definition bad_manifest :: entry where
  "bad_manifest = file_entry ''bad/metadata.json'' ''{}''"

definition after_bad :: "entry list" where
  "after_bad =
     [file_entry ''bad/index.html'' ''<html></html>'',
      file_entry ''last/metadata.json'' ''{}'', file_entry ''last/index.html'' ''<html></html>'']"

definition broken_manifest :: entry where
  \<open>broken_manifest = file_entry ''broken/metadata.json'' ''{"title":''\<close>

definition good_folder :: "entry list" where
  "good_folder =
     [file_entry ''good/metadata.json'' ''{}'', file_entry ''good/index.html'' ''<html></html>'']"

definition root_manifest :: entry where
  "root_manifest = file_entry ''metadata.json'' ''{}''"

definition noindex_manifest :: entry where
  "noindex_manifest = file_entry ''noindex/metadata.json'' ''{}''"

definition null_manifest :: entry where
  "null_manifest = file_entry ''n/metadata.json'' ''null''"

definition no_manifest_archive :: "entry list" where
  "no_manifest_archive =
     [\<lparr>entryName = ''docs/'', isDirectory = True, content = []\<rparr>,
      file_entry ''docs/readme.txt'' ''hello'',
      broken_manifest,
      file_entry ''broken/index.html'' ''<html></html>'']"

text \<open>
  What importing a folder with an empty manifest and an index page logs, given the directory
  it is written to.
\<close>

definition sample_folder_log :: "string \<Rightarrow> fs_op list" where
  "sample_folder_log d =
     [Mkdir d, Mkdir d, WriteFile (d @ ''/metadata.json'') ''{}'',
      Mkdir d, WriteFile (d @ ''/index.html'') ''<html></html>'',
      Readdir d, Rename d d]"

definition first_world :: world where
  "first_world =
     \<lparr>fs_log = sample_folder_log ''/srv/uploads/first_100'',
      games = [untitled_record ''/games/files/first_100/index.html''],
      clock_reads = 1\<rparr>"

definition bad_world :: world where
  "bad_world =
     \<lparr>fs_log = sample_folder_log ''/srv/uploads/first_100'' @
        [Mkdir ''/srv/uploads/bad_101'', Mkdir ''/srv/uploads/bad_101'',
         WriteFile ''/srv/uploads/bad_101/metadata.json'' ''{}'',
         Mkdir ''/srv/uploads/bad_101''],
      games = [untitled_record ''/games/files/first_100/index.html''],
      clock_reads = 2\<rparr>"

definition good_world :: world where
  "good_world =
     \<lparr>fs_log = sample_folder_log ''/srv/uploads/good_100'',
      games = [untitled_record ''/games/files/good_100/index.html''],
      clock_reads = 1\<rparr>"

definition null_archive :: "entry list" where
  "null_archive = good_folder @ null_manifest # first_folder"

definition bad_archive :: "entry list" where
  "bad_archive = first_folder @ bad_manifest # after_bad"

definition mathgame_world :: world where
  \<open>mathgame_world =
     \<lparr>fs_log =
        [Mkdir ''/srv/uploads/mathgame_100'', Mkdir ''/srv/uploads/mathgame_100'',
         WriteFile ''/srv/uploads/mathgame_100/metadata.json'' ''{"title":"Add"}'',
         Mkdir ''/srv/uploads/mathgame_100'',
         WriteFile ''/srv/uploads/mathgame_100/index.html'' ''<html></html>'',
         Readdir ''/srv/uploads/mathgame_100'',
         Rename ''/srv/uploads/mathgame_100'' ''/srv/uploads/mathgame_100''],
      games = [mathgame_record],
      clock_reads = 1\<rparr>\<close>

text \<open>A folder with an entry whose name climbs out of it.\<close>

definition climbing_archive :: "entry list" where
  "climbing_archive =
     [file_entry ''g/metadata.json'' ''{}'', file_entry ''g/../../evil.txt'' ''x'']"

definition sibling_archive :: "entry list" where
  "sibling_archive = mathgame_archive @ broken_manifest # good_folder"





section \<open>The leaderboard after a submission\<close>









lemma length_insert_by: "length (insert_by cmp x ys) = Suc (length ys)"
  by (induction ys) (auto split: option.splits)







section \<open>Basic facts about strings and outcomes\<close>

lemma split_at_not_Nil: "split_at c s \<noteq> []"
  by (induction s) (auto split: list.splits)

lemma join_with_Cons: "ws \<noteq> [] \<Longrightarrow> join_with c (w # ws) = w @ c # join_with c ws"
  by (cases ws) auto

lemma join_split_at: "join_with c (split_at c s) = s"
proof (induction s)
  case Nil
  show ?case by simp
next
  case (Cons x xs)
  show ?case
  proof (cases "x = c")
    case True
    with Cons show ?thesis by (simp add: join_with_Cons split_at_not_Nil)
  next
    case False
    obtain w ws where sp: "split_at c xs = w # ws"
      using split_at_not_Nil [of c xs] by (cases "split_at c xs") auto
    with Cons False show ?thesis by (cases ws) auto
  qed
qed

lemma split_at_no_sep: "c \<notin> set m \<Longrightarrow> split_at c m = [m]"
  by (induction m) auto

lemma split_at_append_sep: "split_at c (p @ c # m) = split_at c p @ split_at c m"
  by (induction p) (auto split: list.splits simp: split_at_not_Nil)

lemma split_at_segments: "s \<in> set (split_at c xs) \<Longrightarrow> c \<notin> set s"
proof (induction xs arbitrary: s)
  case Nil
  then show ?case by simp
next
  case (Cons x xs)
  then show ?case by (auto split: if_splits list.splits)
qed

lemma join_with_snoc: "xs \<noteq> [] \<Longrightarrow> join_with c (xs @ [m]) = join_with c xs @ c # m"
proof (induction xs)
  case Nil
  then show ?case by simp
next
  case (Cons x xs)
  then show ?case by (cases xs) auto
qed

lemma is_manifest_name: "is_manifest e \<Longrightarrow> entryName e = folder_of e @ ''/metadata.json''"
proof -
  assume m: "is_manifest e"
  define ps where "ps = parts e"
  from m have len: "length ps \<ge> 2" and lst: "last ps = ''metadata.json''"
    by (simp_all add: is_manifest_def ps_def)
  from len have ne: "ps \<noteq> []" and bne: "butlast ps \<noteq> []" by (cases ps; cases "tl ps"; auto)+
  have "ps = butlast ps @ [''metadata.json'']" using ne lst by (metis append_butlast_last_id)
  then have "join_with CHR ''/'' ps = join_with CHR ''/'' (butlast ps) @ CHR ''/'' # ''metadata.json''"
    using join_with_snoc [OF bne, of "CHR ''/''" "''metadata.json''"] by simp
  moreover have "join_with CHR ''/'' ps = entryName e"
    by (simp add: ps_def parts_def join_split_at)
  ultimately show ?thesis by (simp add: folder_of_def ps_def)
qed

lemma name_is_manifest:
  assumes "entryName e = p @ ''/metadata.json''"
  shows "is_manifest e \<and> folder_of e = p"
proof -
  have ps: "parts e = split_at CHR ''/'' p @ [''metadata.json'']"
    using assms split_at_append_sep [of "CHR ''/''" p "''metadata.json''"]
    by (simp add: parts_def split_at_no_sep)
  have "length (split_at CHR ''/'' p) \<ge> 1"
    using split_at_not_Nil [of "CHR ''/''" p] by (cases "split_at CHR ''/'' p") auto
  then have "is_manifest e" by (simp add: is_manifest_def ps)
  moreover have "folder_of e = p" by (simp add: folder_of_def ps join_split_at)
  ultimately show ?thesis by simp
qed

lemma and_then_Done [simp]: "and_then (Done x w) f = f x w"
  by (simp add: and_then_def)

lemma and_then_Raised [simp]: "and_then (Raised e w) f = Raised e w"
  by (simp add: and_then_def)

lemma and_then_eq_Done:
  "and_then m f = Done y w' \<longleftrightarrow> (\<exists>x w1. m = Done x w1 \<and> f x w1 = Done y w')"
  by (cases m) auto

lemma and_then_eq_Raised:
  "and_then m f = Raised e w' \<longleftrightarrow>
     m = Raised e w' \<or> (\<exists>x w1. m = Done x w1 \<and> f x w1 = Raised e w')"
  by (cases m) auto

lemma fs_call_Done:
  "fs_call E op w = Done u w' \<longleftrightarrow>
     \<not> fs_raises E (fs_log w) op \<and> w' = w\<lparr>fs_log := fs_log w @ [op]\<rparr>"
  by (auto simp: fs_call_def)

lemma fs_call_Raised:
  "fs_call E op w = Raised x w' \<longleftrightarrow> fs_raises E (fs_log w) op \<and> x = IOError op \<and> w' = w"
  by (auto simp: fs_call_def)

lemma writes_only_simps [simp]:
  "writes_only []" "writes_only (Mkdir p # ops) = writes_only ops"
  "writes_only (WriteFile p b # ops) = writes_only ops"
  "writes_only (xs @ ys) = (writes_only xs \<and> writes_only ys)"
  by (auto simp: writes_only_def)

lemma extract_files_Done:
  "extract_files E t folder ens w = Done u w' \<Longrightarrow>
     games w' = games w \<and> clock_reads w' = clock_reads w \<and>
     (\<exists>ops. fs_log w' = fs_log w @ ops \<and> writes_only ops)"
proof (induction ens arbitrary: w)
  case Nil
  then show ?case by simp
next
  case (Cons en ens)
  show ?case
  proof (cases "isDirectory en")
    case True
    with Cons show ?thesis by simp
  next
    case False
    with Cons.prems obtain w2 where
      w2: "w2 = w\<lparr>fs_log := fs_log w @ [Mkdir (path_dirname (path_join t (substring (entryName en) (length folder + 1)))),
              WriteFile (path_join t (substring (entryName en) (length folder + 1))) (content en)]\<rparr>"
      and rest: "extract_files E t folder ens w2 = Done u w'"
      by (auto simp: Let_def and_then_eq_Done fs_call_Done)
    from Cons.IH [OF rest] show ?thesis by (auto simp: w2)
  qed
qed

lemma extract_files_Raised:
  "extract_files E t folder ens w = Raised x w' \<Longrightarrow>
     games w' = games w \<and> clock_reads w' = clock_reads w \<and> (\<exists>op. x = IOError op) \<and>
     (\<exists>ops. fs_log w' = fs_log w @ ops \<and> writes_only ops)"
proof (induction ens arbitrary: w)
  case Nil
  then show ?case by simp
next
  case (Cons en ens)
  show ?case
  proof (cases "isDirectory en")
    case True
    with Cons show ?thesis by simp
  next
    case False
    define d where "d = Mkdir (path_dirname (path_join t (substring (entryName en) (length folder + 1))))"
    define f where "f = WriteFile (path_join t (substring (entryName en) (length folder + 1))) (content en)"
    from Cons.prems False consider
        (mk) "x = IOError d" "w' = w"
      | (wr) "x = IOError f" "w' = w\<lparr>fs_log := fs_log w @ [d]\<rparr>"
      | (rest) "extract_files E t folder ens (w\<lparr>fs_log := fs_log w @ [d, f]\<rparr>) = Raised x w'"
      by (auto simp: Let_def and_then_eq_Raised fs_call_Done fs_call_Raised d_def f_def)
    then show ?thesis
    proof cases
      case mk
      then show ?thesis by simp
    next
      case wr
      then show ?thesis by (simp add: d_def)
    next
      case rest
      from Cons.IH [OF rest] show ?thesis by (auto simp: d_def f_def)
    qed
  qed
qed

lemma extract_files_quiet:
  assumes "\<forall>log op. \<not> fs_raises E log op"
  shows "\<exists>w'. extract_files E t folder ens w = Done () w'"
proof (induction ens arbitrary: w)
  case Nil
  show ?case by simp
next
  case (Cons en ens)
  then show ?case using assms by (simp add: Let_def fs_call_def)
qed

lemma get_prop_null [simp]: "get_prop JNull k w = Raised TypeError w"
  by simp

lemma get_prop_not_null: "meta \<noteq> JNull \<Longrightarrow> \<exists>v. get_prop meta k w = Done v w"
  by (cases meta) auto

lemma game_literal_null: "game_literal JNull url w = Raised TypeError w"
  by (simp add: game_literal_def)

lemma game_literal_not_null:
  assumes "meta \<noteq> JNull"
  shows "\<exists>g. game_literal meta url w = Done g w \<and> filePath g = url"
proof -
  from assms have "\<And>k. \<exists>v. get_prop meta k w = Done v w" by (rule get_prop_not_null)
  then obtain v where "\<And>k. get_prop meta k w = Done (v k) w" by metis
  then show ?thesis by (simp add: game_literal_def)
qed

lemma game_literal_object:
  "game_literal (JObj kvs) url w =
     Done \<lparr>title = or_else (map_of kvs ''title'') (JStr ''Untitled''),
           description = or_else (map_of kvs ''description'') (JStr []),
           category = or_else (map_of kvs ''category'') (JStr []),
           tags = or_else (map_of kvs ''tags'') (JArr []),
           filePath = url,
           lesson = \<lparr>lesson_title = or_else (map_of kvs ''lessonTitle'') (JStr []),
                     lesson_content = or_else (map_of kvs ''lessonContent'') (JStr [])\<rparr>,
           quizzes = or_else (map_of kvs ''quizzes'') (JArr []),
           leaderboard = []\<rparr> w"
  by (simp add: game_literal_def)

lemma get_prop_own_property:
  "meta \<noteq> JNull \<Longrightarrow> get_prop meta k w = Done (own_property meta k) w"
  by (cases meta) (simp_all add: own_property_def)

lemma game_literal_value:
  assumes "meta \<noteq> JNull"
  shows "game_literal meta url w =
     Done \<lparr>title = or_else (own_property meta ''title'') (JStr ''Untitled''),
           description = or_else (own_property meta ''description'') (JStr []),
           category = or_else (own_property meta ''category'') (JStr []),
           tags = or_else (own_property meta ''tags'') (JArr []),
           filePath = url,
           lesson = \<lparr>lesson_title = or_else (own_property meta ''lessonTitle'') (JStr []),
                     lesson_content = or_else (own_property meta ''lessonContent'') (JStr [])\<rparr>,
           quizzes = or_else (own_property meta ''quizzes'') (JArr []),
           leaderboard = []\<rparr> w"
  by (simp add: game_literal_def get_prop_own_property [OF assms])

lemma game_literal_Done:
  "game_literal meta url w = Done g w' \<Longrightarrow> w' = w \<and> filePath g = url \<and> meta \<noteq> JNull"
  using game_literal_not_null [of meta url w] by (cases "meta = JNull") (auto simp: game_literal_null)

lemma game_literal_Raised:
  "game_literal meta url w = Raised x w' \<Longrightarrow> w' = w \<and> x = TypeError \<and> meta = JNull"
  using game_literal_not_null [of meta url w] by (cases "meta = JNull") (auto simp: game_literal_null)

section \<open>One folder\<close>

lemma Game_create_Done:
  "Game_create E g w = Done g' w' \<longleftrightarrow>
     \<not> create_rejects E (games w) g \<and> g' = g \<and> w' = w\<lparr>games := games w @ [g]\<rparr>"
  by (auto simp: Game_create_def)

lemma Game_create_Raised:
  "Game_create E g w = Raised x w' \<longleftrightarrow> create_rejects E (games w) g \<and> x = CreateError \<and> w' = w"
  by (auto simp: Game_create_def)

lemma game_literal_world:
  "game_literal meta url w = Done g w1 \<Longrightarrow> game_literal meta url w2 = Done g w2"
  by (cases meta) (auto simp: game_literal_def)

lemma import_folder_Done:
  assumes "import_folder E entries folder meta w = Done g w'"
  defines "tf \<equiv> targetFolder_of E folder (Date_now E (clock_reads w))"
  shows "meta \<noteq> JNull" 
    and "game_literal meta (serveUrl_of tf) w' = Done g w'"
    and "filePath g = serveUrl_of tf"
    and "games w' = games w @ [g]"
    and "clock_reads w' = Suc (clock_reads w)"
    and "\<exists>ops. writes_only ops \<and>
           fs_log w' = fs_log w @ Mkdir tf # ops @ [Readdir tf, Rename tf (destDir_of E tf)]"
proof -
  from assms(1) obtain w1 w2 w3 w4 w5 u where
        s1: "w1 = w\<lparr>clock_reads := Suc (clock_reads w), fs_log := fs_log w @ [Mkdir tf]\<rparr>"
    and s2: "extract_files E tf folder
               (filter (\<lambda>en. startsWith (entryName en) (folder @ ''/'')) entries) w1 = Done u w2"
    and s3: "w3 = w2\<lparr>fs_log := fs_log w2 @ [Readdir tf]\<rparr>"
    and s4: "w4 = w3\<lparr>fs_log := fs_log w3 @ [Rename tf (destDir_of E tf)]\<rparr>"
    and s5: "game_literal meta (serveUrl_of tf) w4 = Done g w5"
    and s6: "w' = w5\<lparr>games := games w5 @ [g]\<rparr>"
    by (auto simp: import_folder_def read_clock_def Let_def tf_def and_then_eq_Done
        fs_call_Done Game_create_Done)
  from game_literal_Done [OF s5] have w5: "w5 = w4" and fp: "filePath g = serveUrl_of tf"
    and nn: "meta \<noteq> JNull" by simp_all
  from extract_files_Done [OF s2] obtain ops where
    e: "games w2 = games w1" "clock_reads w2 = clock_reads w1"
       "fs_log w2 = fs_log w1 @ ops" "writes_only ops" by auto
  show "meta \<noteq> JNull" by (rule nn)
  show "filePath g = serveUrl_of tf" by (rule fp)
  show "game_literal meta (serveUrl_of tf) w' = Done g w'"
    using s5 by (rule game_literal_world)
  show "games w' = games w @ [g]" using e by (simp add: s6 w5 s4 s3 s1)
  show "clock_reads w' = Suc (clock_reads w)" using e by (simp add: s6 w5 s4 s3 s1)
  show "\<exists>ops. writes_only ops \<and>
           fs_log w' = fs_log w @ Mkdir tf # ops @ [Readdir tf, Rename tf (destDir_of E tf)]"
    using e by (simp add: s6 w5 s4 s3 s1)
qed

lemma writes_only_no_Unlink: "writes_only ops \<Longrightarrow> Unlink p \<notin> set ops"
  by (force simp: writes_only_def)

lemma import_folder_Raised:
  assumes "import_folder E entries folder meta w = Raised x w'"
  shows "games w' = games w"
    and "\<exists>ops. fs_log w' = fs_log w @ ops \<and> (\<forall>p. Unlink p \<notin> set ops)"
proof -
  define tf where "tf = targetFolder_of E folder (Date_now E (clock_reads w))"
  define w0 where "w0 = w\<lparr>clock_reads := Suc (clock_reads w)\<rparr>"
  define w1 where "w1 = w0\<lparr>fs_log := fs_log w0 @ [Mkdir tf]\<rparr>"
  define ens where "ens = filter (\<lambda>en. startsWith (entryName en) (folder @ ''/'')) entries"
  from assms consider
      (mkdir) "w' = w0"
    | (unpack) "extract_files E tf folder ens w1 = Raised x w'"
    | (later) u w2 where "extract_files E tf folder ens w1 = Done u w2"
        "w' = w2 \<or> w' = w2\<lparr>fs_log := fs_log w2 @ [Readdir tf]\<rparr>
          \<or> w' = w2\<lparr>fs_log := fs_log w2 @ [Readdir tf, Rename tf (destDir_of E tf)]\<rparr>"
    by (auto simp: import_folder_def read_clock_def Let_def and_then_eq_Raised
        fs_call_Done fs_call_Raised Game_create_Raised tf_def w0_def w1_def ens_def
        dest!: game_literal_Raised game_literal_Done)
  then have "games w' = games w \<and> (\<exists>ops. fs_log w' = fs_log w @ ops \<and> (\<forall>p. Unlink p \<notin> set ops))"
  proof cases
    case mkdir
    then show ?thesis by (simp add: w0_def)
  next
    case unpack
    from extract_files_Raised [OF unpack] obtain ops where
      "games w' = games w1" "fs_log w' = fs_log w1 @ ops" "writes_only ops" by auto
    then show ?thesis by (auto simp: w1_def w0_def dest: writes_only_no_Unlink)
  next
    case later
    from extract_files_Done [OF later(1)] obtain ops where
      "games w2 = games w1" "fs_log w2 = fs_log w1 @ ops" "writes_only ops" by auto
    with later(2) show ?thesis by (auto simp: w1_def w0_def dest: writes_only_no_Unlink)
  qed
  then show "games w' = games w"
    and "\<exists>ops. fs_log w' = fs_log w @ ops \<and> (\<forall>p. Unlink p \<notin> set ops)" by simp_all
qed

lemma import_folder_null: "import_folder E entries folder JNull w \<noteq> Done g w'"
  using import_folder_Done(1) [of E entries folder JNull w g w'] by auto

lemma import_folder_quiet:
  assumes "\<forall>log op. \<not> fs_raises E log op" and "\<forall>gs g. \<not> create_rejects E gs g"
    and "meta \<noteq> JNull"
  shows "\<exists>g w'. import_folder E entries folder meta w = Done g w'"
proof -
  define tf where "tf = targetFolder_of E folder (Date_now E (clock_reads w))"
  obtain w2 where x: "extract_files E tf folder
      (filter (\<lambda>en. startsWith (entryName en) (folder @ ''/'')) entries)
      (w\<lparr>clock_reads := Suc (clock_reads w), fs_log := fs_log w @ [Mkdir tf]\<rparr>) = Done () w2"
    using extract_files_quiet [OF assms(1)] by blast
  obtain g where g: "game_literal meta (serveUrl_of tf)
      (w2\<lparr>fs_log := fs_log w2 @ [Readdir tf, Rename tf (destDir_of E tf)]\<rparr>) =
      Done g (w2\<lparr>fs_log := fs_log w2 @ [Readdir tf, Rename tf (destDir_of E tf)]\<rparr>)"
    using game_literal_not_null [OF assms(3)] by blast
  show ?thesis
    using assms(1,2) x g
    by (simp add: import_folder_def read_clock_def Let_def fs_call_def Game_create_def
        tf_def [symmetric])
qed

section \<open>The loop over the entries\<close>

lemma scan_import_each:
  "scan E entries es created w = import_each E entries (manifest_pairs E es) created w"
proof (induction es arbitrary: created w)
  case Nil
  show ?case by (simp add: manifest_pairs_def)
next
  case (Cons e es)
  have tl: "manifest_pairs E (e # es) =
     (if isDirectory e \<or> \<not> is_manifest e then []
      else (case JSON_parse E (content e) of None \<Rightarrow> [] | Some meta \<Rightarrow> [(folder_of e, meta)]))
     @ manifest_pairs E es"
    by (simp add: manifest_pairs_def)
  have IH: "scan E entries es c = import_each E entries (manifest_pairs E es) c" for c
    by (rule ext) (rule Cons.IH)
  show ?case unfolding tl by (simp add: IH split: option.splits)
qed

lemma import_each_append:
  "import_each E entries (ps @ qs) created w =
     and_then (import_each E entries ps created w) (\<lambda>c w1. import_each E entries qs c w1)"
proof (induction ps arbitrary: created w)
  case Nil
  show ?case by simp
next
  case (Cons p ps)
  obtain folder meta where p: "p = (folder, meta)" by (cases p)
  show ?case
    by (cases "import_folder E entries folder meta w") (simp_all add: p Cons.IH)
qed

lemma manifest_pairs_append:
  "manifest_pairs E (xs @ ys) = manifest_pairs E xs @ manifest_pairs E ys"
  by (simp add: manifest_pairs_def)

lemma scan_append:
  "scan E entries (xs @ ys) created w =
     and_then (scan E entries xs created w) (\<lambda>c w1. scan E entries ys c w1)"
  by (simp add: scan_import_each manifest_pairs_append import_each_append)

lemma import_folder_Done_log:
  assumes "import_folder E entries folder meta w = Done g w'"
  shows "\<exists>ops. fs_log w' = fs_log w @ ops \<and> (\<forall>p. Unlink p \<notin> set ops)"
proof -
  from import_folder_Done(6) [OF assms] obtain ops tf where
    "writes_only ops" "fs_log w' = fs_log w @ (Mkdir tf # ops @ [Readdir tf, Rename tf (destDir_of E tf)])"
    by auto
  moreover from this(1) have "\<forall>p. Unlink p \<notin> set (Mkdir tf # ops @ [Readdir tf, Rename tf (destDir_of E tf)])"
    by (auto dest: writes_only_no_Unlink)
  ultimately show ?thesis by blast
qed

lemma import_each_Done:
  "import_each E entries ps created w = Done c w' \<Longrightarrow>
     \<exists>new ops. c = created @ new \<and> length new = length ps \<and> games w' = games w @ new \<and>
       fs_log w' = fs_log w @ ops \<and> (\<forall>p. Unlink p \<notin> set ops)"
proof (induction ps arbitrary: created w)
  case Nil
  then show ?case by simp
next
  case (Cons p ps)
  obtain folder meta where p: "p = (folder, meta)" by (cases p)
  from Cons.prems obtain g w1 where
    one: "import_folder E entries folder meta w = Done g w1"
    and rest: "import_each E entries ps (created @ [g]) w1 = Done c w'"
    by (auto simp: p and_then_eq_Done)
  from import_folder_Done(4) [OF one] import_folder_Done_log [OF one] obtain ops1 where
    g1: "games w1 = games w @ [g]" and l1: "fs_log w1 = fs_log w @ ops1"
    and u1: "\<forall>p. Unlink p \<notin> set ops1"
    by auto
  from Cons.IH [OF rest] obtain new ops where
    "c = (created @ [g]) @ new" "length new = length ps" "games w' = games w1 @ new"
    "fs_log w' = fs_log w1 @ ops" "\<forall>p. Unlink p \<notin> set ops" by blast
  with g1 l1 u1 have "c = created @ (g # new) \<and> length (g # new) = length (p # ps) \<and>
      games w' = games w @ (g # new) \<and> fs_log w' = fs_log w @ (ops1 @ ops) \<and>
      (\<forall>p. Unlink p \<notin> set (ops1 @ ops))" by simp
  then show ?case by blast
qed

lemma import_each_Raised:
  "import_each E entries ps created w = Raised x w' \<Longrightarrow>
     \<exists>new ops. games w' = games w @ new \<and> length new < length ps \<and>
       fs_log w' = fs_log w @ ops \<and> (\<forall>p. Unlink p \<notin> set ops)"
proof (induction ps arbitrary: created w)
  case Nil
  then show ?case by simp
next
  case (Cons p ps)
  obtain folder meta where p: "p = (folder, meta)" by (cases p)
  from Cons.prems consider
      (here) "import_folder E entries folder meta w = Raised x w'"
    | (later) g w1 where "import_folder E entries folder meta w = Done g w1"
        "import_each E entries ps (created @ [g]) w1 = Raised x w'"
    by (auto simp: p and_then_eq_Raised)
  then show ?case
  proof cases
    case here
    from import_folder_Raised [OF here] obtain ops where
      "games w' = games w @ []" "fs_log w' = fs_log w @ ops" "\<forall>p. Unlink p \<notin> set ops" by auto
    then show ?thesis by (metis length_greater_0_conv list.distinct(1) list.size(3))
  next
    case later
    from import_folder_Done(4) [OF later(1)] import_folder_Done_log [OF later(1)] obtain ops1 where
      g1: "games w1 = games w @ [g]" and l1: "fs_log w1 = fs_log w @ ops1"
      and u1: "\<forall>p. Unlink p \<notin> set ops1"
      by auto
    from Cons.IH [OF later(2)] obtain new ops where
      "games w' = games w1 @ new" "length new < length ps"
      "fs_log w' = fs_log w1 @ ops" "\<forall>p. Unlink p \<notin> set ops" by blast
    with g1 l1 u1 have "games w' = games w @ (g # new) \<and> length (g # new) < length (p # ps) \<and>
        fs_log w' = fs_log w @ (ops1 @ ops) \<and> (\<forall>p. Unlink p \<notin> set (ops1 @ ops))" by simp
    then show ?thesis by blast
  qed
qed

lemma import_each_quiet:
  assumes "\<forall>log op. \<not> fs_raises E log op" and "\<forall>gs g. \<not> create_rejects E gs g"
  shows "\<forall>(folder, meta) \<in> set ps. meta \<noteq> JNull \<Longrightarrow>
         \<exists>c w'. import_each E entries ps created w = Done c w'"
proof (induction ps arbitrary: created w)
  case Nil
  show ?case by simp
next
  case (Cons p ps)
  obtain folder meta where p: "p = (folder, meta)" by (cases p)
  with Cons.prems have "meta \<noteq> JNull" by simp
  from import_folder_quiet [OF assms this] obtain g w1 where
    "import_folder E entries folder meta w = Done g w1" by blast
  moreover from Cons.prems have "\<forall>(folder, meta) \<in> set ps. meta \<noteq> JNull" by simp
  from Cons.IH [OF this] obtain c w' where
    "import_each E entries ps (created @ [g]) w1 = Done c w'" by blast
  ultimately show ?case by (simp add: p)
qed

section \<open>The name of the materialised folder\<close>

lemma digit_char_not_slash: "d < 10 \<Longrightarrow> digit_char d \<noteq> CHR ''/''"
proof
  assume d: "d < 10" and eq: "digit_char d = CHR ''/''"
  have "(of_char (digit_char d) :: nat) = (48 + d) mod 256"
    by (simp add: digit_char_def)
  with d have "(of_char (digit_char d) :: nat) = 48 + d" by simp
  with eq show False by simp
qed

lemma String_of_nat_no_slash: "CHR ''/'' \<notin> set (String_of_nat n)"
proof (induction n rule: String_of_nat.induct)
  case (1 n)
  show ?case
  proof (cases "n < 10")
    case True
    then show ?thesis using digit_char_not_slash [of n] by (simp add: String_of_nat.simps [of n])
  next
    case False
    with 1 show ?thesis using digit_char_not_slash [of "n mod 10"]
      by (simp add: String_of_nat.simps [of n])
  qed
qed

lemma String_of_nat_not_Nil: "String_of_nat n \<noteq> []"
  by (simp add: String_of_nat.simps [of n])

lemma split_at_append_no_sep:
  "c \<notin> set ys \<Longrightarrow>
   split_at c (xs @ ys) = butlast (split_at c xs) @ [last (split_at c xs) @ ys]"
proof (induction xs)
  case Nil
  then show ?case by (simp add: split_at_no_sep)
next
  case (Cons x xs)
  obtain w ws where sp: "split_at c xs = w # ws"
    using split_at_not_Nil [of c xs] by (cases "split_at c xs") auto
  show ?case
  proof (cases "x = c")
    case True
    with Cons show ?thesis by (simp add: split_at_not_Nil)
  next
    case False
    with Cons sp show ?thesis by (cases ws) (auto split: list.splits)
  qed
qed

lemma path_basename_tail:
  assumes "L \<noteq> []" and "CHR ''/'' \<notin> set L" and "A = [] \<or> last A = CHR ''/''"
  shows "path_basename (A @ L) = L"
proof -
  have hdL: "hd (rev L) \<noteq> CHR ''/''" using assms(1,2) by (metis hd_rev last_in_set)
  have d: "dropWhile (\<lambda>c. c = CHR ''/'') (rev L @ rev A) = rev L @ rev A"
    using assms(1) hdL by (cases "rev L") auto
  have t1: "takeWhile (\<lambda>c. c \<noteq> CHR ''/'') (rev L @ rev A) =
            rev L @ takeWhile (\<lambda>c. c \<noteq> CHR ''/'') (rev A)"
    using assms(2) by (intro takeWhile_append2) auto
  have t2: "takeWhile (\<lambda>c. c \<noteq> CHR ''/'') (rev A) = []"
    using assms(3) by (cases "rev A") (auto simp: last_rev hd_rev dest: arg_cong [where f = hd])
  show ?thesis by (simp add: path_basename_def d t1 t2)
qed


lemma path_normalize_tail:
  assumes sp: "split_at CHR ''/'' P = pre @ [L]"
    and L: "L \<noteq> []" "L \<noteq> ''.''" "L \<noteq> ''..''"
    and P: "P \<noteq> []" "last P \<noteq> CHR ''/''"
  shows "\<exists>A. path_normalize P = A @ L \<and> (A = [] \<or> last A = CHR ''/'')"
proof -
  define b where "b = (hd P \<noteq> CHR ''/'')"
  define res where "res = foldl (normalize_step b) [] pre"
  have q: "normalizeString P b = join_with CHR ''/'' (res @ [L])"
    using L by (simp add: normalizeString_def sp res_def normalize_step_def)
  have j: "join_with CHR ''/'' (res @ [L]) = (if res = [] then L else join_with CHR ''/'' res @ CHR ''/'' # L)"
    by (simp add: join_with_snoc)
  define A where "A = (if b then [] else ''/'') @ (if res = [] then [] else join_with CHR ''/'' res @ ''/'')"
  have "normalizeString P b \<noteq> []" using L(1) by (simp add: q j)
  then have "path_normalize P = A @ L"
    using P by (simp add: path_normalize_def Let_def b_def [symmetric] q j A_def)
  moreover have "A = [] \<or> last A = CHR ''/''" by (simp add: A_def)
  ultimately show ?thesis by blast
qed

lemma path_basename_targetFolder:
  "path_basename (targetFolder_of E folder t) =
     last (split_at CHR ''/'' folder) @ ''_'' @ String_of_nat t"
proof -
  define T where "T = String_of_nat t"
  define L where "L = last (split_at CHR ''/'' folder) @ ''_'' @ T"
  define X where "X = folder @ ''_'' @ T"
  have T: "T \<noteq> []" "CHR ''/'' \<notin> set T"
    by (simp_all add: T_def String_of_nat_not_Nil String_of_nat_no_slash)
  have "last (split_at CHR ''/'' folder) \<in> set (split_at CHR ''/'' folder)"
    by (simp add: split_at_not_Nil)
  then have seg: "CHR ''/'' \<notin> set (last (split_at CHR ''/'' folder))"
    by (rule split_at_segments)
  have L: "L \<noteq> []" "L \<noteq> ''.''" "L \<noteq> ''..''" "CHR ''/'' \<notin> set L"
  proof -
    have u: "CHR ''_'' \<in> set L" by (simp add: L_def)
    show "L \<noteq> []" using u by auto
    show "L \<noteq> ''.''" using u by auto
    show "L \<noteq> ''..''" using u by auto
    show "CHR ''/'' \<notin> set L" using seg T(2) by (simp add: L_def)
  qed
  have spX: "split_at CHR ''/'' X = butlast (split_at CHR ''/'' folder) @ [L]"
    unfolding X_def L_def using T(2) by (intro split_at_append_no_sep) simp
  have "last T \<in> set T" using T(1) by simp
  with T(2) have "last T \<noteq> CHR ''/''" by auto
  with T(1) have X: "X \<noteq> []" "last X \<noteq> CHR ''/''"
    by (auto simp: X_def)
  define P where "P = (if uploadDir E = [] then X else uploadDir E @ CHR ''/'' # X)"
  have tf: "targetFolder_of E folder t = path_normalize P"
    using X(1) by (simp add: targetFolder_of_def path_join_def P_def X_def T_def)
  have "\<exists>pre. split_at CHR ''/'' P = pre @ [L]"
    by (simp add: P_def spX split_at_append_sep)
  then obtain pre where sp: "split_at CHR ''/'' P = pre @ [L]" ..
  have P: "P \<noteq> []" "last P \<noteq> CHR ''/''" using X by (auto simp: P_def)
  from path_normalize_tail [OF sp L(1,2,3) P] obtain A where
    "path_normalize P = A @ L" "A = [] \<or> last A = CHR ''/''" by blast
  then show ?thesis
    using path_basename_tail [OF L(1) L(4), of A] by (simp add: tf L_def T_def)
qed

section \<open>Archives without a manifest that parses\<close>

lemma manifest_pairs_Nil: "manifest_pairs E [] = []"
  by (simp add: manifest_pairs_def)

lemma manifest_pairs_Cons:
  "manifest_pairs E (e # es) =
     (if isDirectory e \<or> \<not> is_manifest e then manifest_pairs E es
      else (case JSON_parse E (content e) of
              None \<Rightarrow> manifest_pairs E es
            | Some meta \<Rightarrow> (folder_of e, meta) # manifest_pairs E es))"
  by (simp add: manifest_pairs_def split: option.splits)

lemma manifest_pairs_none:
  assumes "\<forall>e \<in> set es. \<not> isDirectory e \<longrightarrow> is_manifest e \<longrightarrow> JSON_parse E (content e) = None"
  shows "manifest_pairs E es = []"
  using assms
proof (induction es)
  case Nil
  show ?case by (rule manifest_pairs_Nil)
next
  case (Cons e es)
  then show ?case by (simp add: manifest_pairs_Cons)
qed

lemma bulk_upload_admin:
  assumes "role u = ''admin''"
  shows "bulk_upload E \<lparr>req_auth = Verified u, req_file = Some f\<rparr> w =
           (case try_import E f w of
              Done r w' \<Rightarrow> (r, w')
            | Raised e w' \<Rightarrow> (Response 500 (Error ''Failed processing zip''), w'))"
  using assms by (simp add: bulk_upload_def authMiddleware_def)

text \<open>
  Claim C7. When no manifest of a readable archive parses, the import answers with
  \<open>created = 0\<close> and an empty preview, and the only file system call it makes is the
  removal of the uploaded archive: no directory is created and no file is written. (The
  removal itself is taken not to raise.)
\<close>

theorem no_valid_manifest_no_writes:
  assumes "role u = ''admin''"
    and "zip_entries f = Some entries"
    and "\<forall>e \<in> set entries. \<not> isDirectory e \<longrightarrow> is_manifest e \<longrightarrow>
           JSON_parse E (content e) = None"
    and "\<not> fs_raises E (fs_log w) (Unlink (file_path f))"
  shows "bulk_upload E \<lparr>req_auth = Verified u, req_file = Some f\<rparr> w =
           (Response 200 (Imported 0 []),
            w\<lparr>fs_log := fs_log w @ [Unlink (file_path f)]\<rparr>)"
proof -
  have "scan E entries entries [] w = Done [] w"
    by (simp add: scan_import_each manifest_pairs_none [OF assms(3)])
  then have "try_import E f w =
      Done (Response 200 (Imported 0 [])) (w\<lparr>fs_log := fs_log w @ [Unlink (file_path f)]\<rparr>)"
    using assms(2,4) by (simp add: try_import_def fs_call_def slice_def)
  then show ?thesis by (simp add: bulk_upload_admin [OF assms(1)])
qed

theorem no_valid_manifest_no_writes_witness:
  "role admin_user = ''admin'' \<and>
   zip_entries (sample_upload no_manifest_archive) = Some no_manifest_archive \<and>
   list_all (\<lambda>e. \<not> isDirectory e \<longrightarrow> is_manifest e \<longrightarrow>
      JSON_parse quiet_env (content e) = None) no_manifest_archive \<and>
   \<not> fs_raises quiet_env (fs_log fresh_world) (Unlink (file_path (sample_upload no_manifest_archive))) \<and>
   bulk_upload quiet_env
     \<lparr>req_auth = Verified admin_user, req_file = Some (sample_upload no_manifest_archive)\<rparr>
     fresh_world =
     (Response 200 (Imported 0 []),
      fresh_world\<lparr>fs_log := fs_log fresh_world @ [Unlink (file_path (sample_upload no_manifest_archive))]\<rparr>)"
proof -
  have a: "role admin_user = ''admin''" by (simp add: admin_user_def)
  have b: "zip_entries (sample_upload no_manifest_archive) = Some no_manifest_archive"
    by (simp add: sample_upload_def)
  have p: "JSON_parse quiet_env (content broken_manifest) = None"
    by code_simp
  have m: "\<not> is_manifest (file_entry ''docs/readme.txt'' ''hello'')"
    "\<not> is_manifest (file_entry ''broken/index.html'' ''<html></html>'')"
    by code_simp+
  have c: "\<forall>e \<in> set no_manifest_archive. \<not> isDirectory e \<longrightarrow> is_manifest e \<longrightarrow>
      JSON_parse quiet_env (content e) = None"
    using p m by (simp add: no_manifest_archive_def)
  have d: "\<not> fs_raises quiet_env (fs_log fresh_world)
      (Unlink (file_path (sample_upload no_manifest_archive)))"
    by (simp add: quiet_env_def)
  show ?thesis
    using a b c d no_valid_manifest_no_writes [OF a b c d] by (simp add: list_all_iff)
qed

section \<open>An exception inside the loop\<close>

lemma scan_Done:
  assumes "scan E entries es created w = Done c w'"
  shows "\<exists>new ops. c = created @ new \<and> length new = length (manifest_pairs E es) \<and>
           games w' = games w @ new \<and> fs_log w' = fs_log w @ ops \<and> (\<forall>p. Unlink p \<notin> set ops)"
  using assms import_each_Done [of E entries "manifest_pairs E es" created w c w']
  by (simp add: scan_import_each)

lemma scan_Raised:
  assumes "scan E entries es created w = Raised x w'"
  shows "\<exists>new ops. games w' = games w @ new \<and> length new < length (manifest_pairs E es) \<and>
           fs_log w' = fs_log w @ ops \<and> (\<forall>p. Unlink p \<notin> set ops)"
  using assms import_each_Raised [of E entries "manifest_pairs E es" created w x w']
  by (simp add: scan_import_each)

lemma import_raises_at:
  assumes "role u = ''admin''"
    and "zip_entries f = Some (pre @ e # post)"
    and "scan E (pre @ e # post) pre [] w = Done created w1"
    and "\<not> isDirectory e" and "is_manifest e"
    and "JSON_parse E (content e) = Some meta"
    and "import_folder E (pre @ e # post) (folder_of e) meta w1 = Raised x w2"
  shows "bulk_upload E \<lparr>req_auth = Verified u, req_file = Some f\<rparr> w =
           (Response 500 (Error ''Failed processing zip''), w2)"
    and "games w2 = games w @ created"
    and "\<exists>ops. fs_log w2 = fs_log w @ ops \<and> (\<forall>p. Unlink p \<notin> set ops)"
proof -
  have "scan E (pre @ e # post) (e # post) created w1 = Raised x w2"
    using assms(4-7) by simp
  then have "scan E (pre @ e # post) (pre @ e # post) [] w = Raised x w2"
    using assms(3) by (simp add: scan_append [of E "pre @ e # post" pre "e # post"])
  then have "try_import E f w = Raised x w2"
    using assms(2) by (simp add: try_import_def)
  then show "bulk_upload E \<lparr>req_auth = Verified u, req_file = Some f\<rparr> w =
           (Response 500 (Error ''Failed processing zip''), w2)"
    by (simp add: bulk_upload_admin [OF assms(1)])
  from scan_Done [OF assms(3)] obtain ops1 where
    g1: "games w1 = games w @ created" and l1: "fs_log w1 = fs_log w @ ops1"
    and u1: "\<forall>p. Unlink p \<notin> set ops1" by auto
  from import_folder_Raised [OF assms(7)] obtain ops2 where
    g2: "games w2 = games w1" and l2: "fs_log w2 = fs_log w1 @ ops2"
    and u2: "\<forall>p. Unlink p \<notin> set ops2" by auto
  show "games w2 = games w @ created" by (simp add: g1 g2)
  have "fs_log w2 = fs_log w @ (ops1 @ ops2) \<and> (\<forall>p. Unlink p \<notin> set (ops1 @ ops2))"
    using l1 l2 u1 u2 by simp
  then show "\<exists>ops. fs_log w2 = fs_log w @ ops \<and> (\<forall>p. Unlink p \<notin> set ops)" by blast
qed

text \<open>
  Claim C10. A manifest whose text is the literal \<open>null\<close> passes the parser, and reading
  a property of the parsed value throws. When the loop reaches such a manifest after the
  entries before it have been imported, the handler answers with status 500 and the message
  of its catch block, the records of the earlier folders stay in the collection, and the
  uploaded archive is not unlinked.
\<close>

theorem null_manifest_aborts_import:
  assumes "role u = ''admin''"
    and "zip_entries f = Some (pre @ e # post)"
    and "scan E (pre @ e # post) pre [] w = Done created w1"
    and "\<not> isDirectory e" and "is_manifest e"
    and "JSON_parse E (content e) = Some JNull"
  shows "get_prop JNull ''title'' w1 = Raised TypeError w1 \<and>
         fst (bulk_upload E \<lparr>req_auth = Verified u, req_file = Some f\<rparr> w) =
           Response 500 (Error ''Failed processing zip'') \<and>
         games (snd (bulk_upload E \<lparr>req_auth = Verified u, req_file = Some f\<rparr> w)) =
           games w @ created \<and>
         (\<exists>ops. fs_log (snd (bulk_upload E \<lparr>req_auth = Verified u, req_file = Some f\<rparr> w)) =
                  fs_log w @ ops \<and> Unlink (file_path f) \<notin> set ops)"
proof -
  obtain x w2 where r: "import_folder E (pre @ e # post) (folder_of e) JNull w1 = Raised x w2"
    using import_folder_null [of E "pre @ e # post" "folder_of e" w1]
    by (cases "import_folder E (pre @ e # post) (folder_of e) JNull w1") auto
  from import_raises_at [OF assms r] show ?thesis by auto
qed

theorem null_manifest_aborts_import_witness:
  "role admin_user = ''admin'' \<and>
   zip_entries (sample_upload null_archive) = Some (good_folder @ null_manifest # first_folder) \<and>
   scan quiet_env (good_folder @ null_manifest # first_folder) good_folder [] fresh_world =
     Done [untitled_record ''/games/files/good_100/index.html''] good_world \<and>
   \<not> isDirectory null_manifest \<and> is_manifest null_manifest \<and>
   JSON_parse quiet_env (content null_manifest) = Some JNull \<and>
   fst (bulk_upload quiet_env
          \<lparr>req_auth = Verified admin_user, req_file = Some (sample_upload null_archive)\<rparr>
          fresh_world) = Response 500 (Error ''Failed processing zip'') \<and>
   games (snd (bulk_upload quiet_env
          \<lparr>req_auth = Verified admin_user, req_file = Some (sample_upload null_archive)\<rparr>
          fresh_world)) = [untitled_record ''/games/files/good_100/index.html'']"
proof -
  have a: "role admin_user = ''admin''" by (simp add: admin_user_def)
  have b: "zip_entries (sample_upload null_archive) = Some (good_folder @ null_manifest # first_folder)"
    by (simp add: sample_upload_def null_archive_def)
  have c: "scan quiet_env (good_folder @ null_manifest # first_folder) good_folder [] fresh_world =
     Done [untitled_record ''/games/files/good_100/index.html''] good_world"
    by code_simp
  have d: "\<not> isDirectory null_manifest" by (simp add: null_manifest_def file_entry_def)
  have e: "is_manifest null_manifest" by code_simp
  have f: "JSON_parse quiet_env (content null_manifest) = Some JNull" by code_simp
  have g: "games fresh_world = []" by (simp add: fresh_world_def)
  show ?thesis
    using a b c d e f g null_manifest_aborts_import [OF a b c d e f] by simp
qed

section \<open>A write that fails\<close>

text \<open>
  Claim C1 says that a write failure in one folder only loses that folder. The handler has no
  try block around the extraction, so the exception leaves the loop. Here the write of
  \<open>bad/index.html\<close> raises: the answer is the 500 response, and the folder \<open>last\<close>,
  which comes after it, is never imported.
\<close>

theorem write_failure_counterexample:
  "import_folder failing_env bad_archive ''bad'' (JObj []) first_world =
     Raised (IOError (WriteFile ''/srv/uploads/bad_101/index.html'' ''<html></html>'')) bad_world \<and>
   bulk_upload failing_env (admin_request bad_archive) fresh_world =
     (Response 500 (Error ''Failed processing zip''), bad_world) \<and>
   games bad_world = [untitled_record ''/games/files/first_100/index.html'']"
  by code_simp

text \<open>
  Claim C1, amended. If the import of a folder raises an I/O error (from creating a
  directory, writing a file, listing or renaming the folder), the exception reaches the catch
  block of the handler: the response is status 500 with the message
  \<open>Failed processing zip\<close>, no record is created for that folder or for any later one, and
  the records of the folders before it stay in the collection.
\<close>

theorem write_failure_aborts_import:
  assumes "role u = ''admin''"
    and "zip_entries f = Some (pre @ e # post)"
    and "scan E (pre @ e # post) pre [] w = Done created w1"
    and "\<not> isDirectory e" and "is_manifest e"
    and "JSON_parse E (content e) = Some meta"
    and "import_folder E (pre @ e # post) (folder_of e) meta w1 = Raised (IOError op) w2"
  shows "bulk_upload E \<lparr>req_auth = Verified u, req_file = Some f\<rparr> w =
           (Response 500 (Error ''Failed processing zip''), w2) \<and>
         games w2 = games w @ created"
  using import_raises_at(1,2) [OF assms] by simp

theorem write_failure_aborts_import_witness:
  "role admin_user = ''admin'' \<and>
   zip_entries (sample_upload bad_archive) = Some (first_folder @ bad_manifest # after_bad) \<and>
   scan failing_env (first_folder @ bad_manifest # after_bad) first_folder [] fresh_world =
     Done [untitled_record ''/games/files/first_100/index.html''] first_world \<and>
   \<not> isDirectory bad_manifest \<and> is_manifest bad_manifest \<and>
   JSON_parse failing_env (content bad_manifest) = Some (JObj []) \<and>
   import_folder failing_env (first_folder @ bad_manifest # after_bad) (folder_of bad_manifest)
       (JObj []) first_world =
     Raised (IOError (WriteFile ''/srv/uploads/bad_101/index.html'' ''<html></html>'')) bad_world \<and>
   bulk_upload failing_env
       \<lparr>req_auth = Verified admin_user, req_file = Some (sample_upload bad_archive)\<rparr>
       fresh_world =
     (Response 500 (Error ''Failed processing zip''), bad_world) \<and>
   games bad_world = games fresh_world @ [untitled_record ''/games/files/first_100/index.html'']"
proof -
  have a: "role admin_user = ''admin''" by (simp add: admin_user_def)
  have b: "zip_entries (sample_upload bad_archive) = Some (first_folder @ bad_manifest # after_bad)"
    by (simp add: sample_upload_def bad_archive_def)
  have c: "scan failing_env (first_folder @ bad_manifest # after_bad) first_folder [] fresh_world =
     Done [untitled_record ''/games/files/first_100/index.html''] first_world"
    by code_simp
  have d: "\<not> isDirectory bad_manifest" by (simp add: bad_manifest_def file_entry_def)
  have e: "is_manifest bad_manifest" by code_simp
  have f: "JSON_parse failing_env (content bad_manifest) = Some (JObj [])" by code_simp
  have g: "import_folder failing_env (first_folder @ bad_manifest # after_bad)
       (folder_of bad_manifest) (JObj []) first_world =
     Raised (IOError (WriteFile ''/srv/uploads/bad_101/index.html'' ''<html></html>'')) bad_world"
    by code_simp
  show ?thesis
    using a b c d e f g write_failure_aborts_import [OF a b c d e f g] by simp
qed

section \<open>Where the files of a folder are written\<close>

lemma extract_files_writes:
  "extract_files E t folder ens w = Done u w' \<Longrightarrow>
     fs_log w' = fs_log w @ folder_writes t folder ens"
proof (induction ens arbitrary: w)
  case Nil
  then show ?case by simp
next
  case (Cons en ens)
  show ?case
  proof (cases "isDirectory en")
    case True
    with Cons show ?thesis by simp
  next
    case False
    with Cons.prems obtain w2 where
      w2: "w2 = w\<lparr>fs_log := fs_log w @ [Mkdir (path_dirname (path_join t (substring (entryName en) (length folder + 1)))),
              WriteFile (path_join t (substring (entryName en) (length folder + 1))) (content en)]\<rparr>"
      and rest: "extract_files E t folder ens w2 = Done u w'"
      by (auto simp: Let_def and_then_eq_Done fs_call_Done)
    from Cons.IH [OF rest] False show ?thesis by (simp add: w2)
  qed
qed

lemma import_folder_log:
  assumes "import_folder E entries folder meta w = Done g w'"
  defines "tf \<equiv> targetFolder_of E folder (Date_now E (clock_reads w))"
  shows "fs_log w' = fs_log w @ Mkdir tf #
           folder_writes tf folder
             (filter (\<lambda>en. startsWith (entryName en) (folder @ ''/'')) entries) @
           [Readdir tf, Rename tf (destDir_of E tf)]"
proof -
  from assms(1) obtain w1 w2 w3 w4 w5 u where
        s1: "w1 = w\<lparr>clock_reads := Suc (clock_reads w), fs_log := fs_log w @ [Mkdir tf]\<rparr>"
    and s2: "extract_files E tf folder
               (filter (\<lambda>en. startsWith (entryName en) (folder @ ''/'')) entries) w1 = Done u w2"
    and s3: "w3 = w2\<lparr>fs_log := fs_log w2 @ [Readdir tf]\<rparr>"
    and s4: "w4 = w3\<lparr>fs_log := fs_log w3 @ [Rename tf (destDir_of E tf)]\<rparr>"
    and s5: "game_literal meta (serveUrl_of tf) w4 = Done g w5"
    and s6: "w' = w5\<lparr>games := games w5 @ [g]\<rparr>"
    by (auto simp: import_folder_def read_clock_def Let_def tf_def and_then_eq_Done
        fs_call_Done Game_create_Done)
  from game_literal_Done [OF s5] have w5: "w5 = w4" by simp
  from extract_files_writes [OF s2] show ?thesis
    by (simp add: s6 w5 s4 s3 s1)
qed

lemma normalize_step_plain: "plain_segment s \<Longrightarrow> normalize_step b acc s = acc @ [s]"
  by (simp add: normalize_step_def plain_segment_def)

lemma foldl_normalize_plain:
  "\<forall>s \<in> set segs. plain_segment s \<Longrightarrow> foldl (normalize_step b) acc segs = acc @ segs"
  by (induction segs arbitrary: acc) (simp_all add: normalize_step_plain)

lemma foldl_normalize_no_dotdot:
  "''..'' \<notin> set segs \<Longrightarrow>
   foldl (normalize_step b) acc segs = acc @ filter (\<lambda>s. s \<noteq> [] \<and> s \<noteq> ''.'') segs"
proof (induction segs arbitrary: acc)
  case Nil
  show ?case by simp
next
  case (Cons s segs)
  then have "s \<noteq> ''..''" and rest: "''..'' \<notin> set segs" by auto
  then have "normalize_step b acc s = acc @ filter (\<lambda>s. s \<noteq> [] \<and> s \<noteq> ''.'') [s]"
    by (simp add: normalize_step_def)
  then show ?case using Cons.IH [OF rest] by simp
qed

lemma normalize_step_keeps_plain:
  assumes "\<forall>x \<in> set acc. plain_segment x" and "CHR ''/'' \<notin> set s"
  shows "\<forall>x \<in> set (normalize_step False acc s). plain_segment x"
proof -
  have "\<forall>x \<in> set (butlast acc). plain_segment x"
    using assms(1) by (auto dest: in_set_butlastD)
  then show ?thesis
    using assms by (auto simp: normalize_step_def plain_segment_def)
qed

lemma foldl_normalize_keeps_plain:
  "\<forall>x \<in> set acc. plain_segment x \<Longrightarrow> \<forall>s \<in> set segs. CHR ''/'' \<notin> set s \<Longrightarrow>
   \<forall>x \<in> set (foldl (normalize_step False) acc segs). plain_segment x"
proof (induction segs arbitrary: acc)
  case Nil
  then show ?case by simp
next
  case (Cons s segs)
  have "\<forall>x \<in> set (normalize_step False acc s). plain_segment x"
    using Cons.prems by (intro normalize_step_keeps_plain) simp_all
  then show ?case using Cons.IH Cons.prems(2) by simp
qed

lemma split_at_join_with:
  "S \<noteq> [] \<Longrightarrow> \<forall>s \<in> set S. c \<notin> set s \<Longrightarrow> split_at c (join_with c S) = S"
proof (induction S rule: join_with.induct)
  case (1 c)
  then show ?case by simp
next
  case (2 c w)
  then show ?case by (simp add: split_at_no_sep)
next
  case (3 c w v ws)
  then show ?case by (simp add: split_at_append_sep split_at_no_sep)
qed

lemma join_with_append:
  "S \<noteq> [] \<Longrightarrow> R \<noteq> [] \<Longrightarrow> join_with c (S @ R) = join_with c S @ c # join_with c R"
proof (induction S rule: join_with.induct)
  case (1 c)
  then show ?case by simp
next
  case (2 c w)
  then show ?case by (cases R) simp_all
next
  case (3 c w v ws)
  then show ?case by simp
qed


lemma join_with_not_Nil: "S \<noteq> [] \<Longrightarrow> hd S \<noteq> [] \<Longrightarrow> join_with c S \<noteq> []"
  by (induction S rule: join_with.induct) simp_all

lemma path_normalize_inside:
  assumes S: "S \<noteq> []" "\<forall>s \<in> set S. plain_segment s"
    and Q: "Q \<noteq> []" "hd Q = CHR ''/''"
    and sp: "split_at CHR ''/'' Q = [] # S @ segs"
    and nd: "''..'' \<notin> set segs"
  shows "inside_folder (CHR ''/'' # join_with CHR ''/'' S) (path_normalize Q)"
proof -
  define R where "R = filter (\<lambda>s. s \<noteq> [] \<and> s \<noteq> ''.'') segs"
  define tail where "tail = (if last Q = CHR ''/'' then ''/'' else [])"
  define mid where "mid = (if R = [] then [] else CHR ''/'' # join_with CHR ''/'' R)"
  have "foldl (normalize_step False) [] ([] # S @ segs) =
      foldl (normalize_step False) (foldl (normalize_step False) [] S) segs"
    by (simp add: normalize_step_def)
  also have "\<dots> = S @ R"
    by (simp add: foldl_normalize_plain [OF S(2)] foldl_normalize_no_dotdot [OF nd] R_def)
  finally have q: "normalizeString Q False = join_with CHR ''/'' (S @ R)"
    by (simp add: normalizeString_def sp)
  have hdS: "hd S \<noteq> []" using S by (cases S) (auto simp: plain_segment_def)
  have j: "join_with CHR ''/'' (S @ R) = join_with CHR ''/'' S @ mid"
    using S(1) by (simp add: mid_def join_with_append)
  have ne: "join_with CHR ''/'' (S @ R) \<noteq> []"
    using join_with_not_Nil [OF S(1) hdS] by (simp add: j)
  have "path_normalize Q = (CHR ''/'' # join_with CHR ''/'' S) @ mid @ tail"
    using Q ne by (simp add: path_normalize_def Let_def q j tail_def)
  moreover have "mid @ tail = [] \<or> (\<exists>rest. mid @ tail = CHR ''/'' # rest)"
    by (simp add: mid_def tail_def)
  ultimately show ?thesis
    by (auto simp: inside_folder_def prefix_def)
qed

lemma path_join_inside:
  assumes S: "S \<noteq> []" "\<forall>s \<in> set S. plain_segment s"
    and tf: "tf = CHR ''/'' # join_with CHR ''/'' S"
    and nd: "''..'' \<notin> set (split_at CHR ''/'' rel)"
  shows "inside_folder tf (path_join tf rel)"
proof -
  have noslash: "\<forall>s \<in> set S. CHR ''/'' \<notin> set s" using S(2) by (simp add: plain_segment_def)
  have sptf: "split_at CHR ''/'' tf = [] # S"
    by (simp add: tf split_at_join_with [OF S(1) noslash])
  show ?thesis
  proof (cases "rel = []")
    case True
    have "inside_folder (CHR ''/'' # join_with CHR ''/'' S) (path_normalize tf)"
      using sptf by (intro path_normalize_inside [OF S, where segs = "[]"]) (simp_all add: tf)
    then show ?thesis using True by (simp add: path_join_def tf)
  next
    case False
    have "inside_folder (CHR ''/'' # join_with CHR ''/'' S) (path_normalize (tf @ CHR ''/'' # rel))"
    proof (rule path_normalize_inside [OF S, where segs = "split_at CHR ''/'' rel"])
      show "tf @ CHR ''/'' # rel \<noteq> []" by simp
      show "hd (tf @ CHR ''/'' # rel) = CHR ''/''" by (simp add: tf)
      show "split_at CHR ''/'' (tf @ CHR ''/'' # rel) = [] # S @ split_at CHR ''/'' rel"
        by (simp add: split_at_append_sep sptf)
      show "''..'' \<notin> set (split_at CHR ''/'' rel)" by (rule nd)
    qed
    then show ?thesis using False by (simp add: path_join_def tf)
  qed
qed

lemma targetFolder_plain:
  assumes "uploadDir E \<noteq> []" and "hd (uploadDir E) = CHR ''/''"
  shows "\<exists>S. S \<noteq> [] \<and> (\<forall>s \<in> set S. plain_segment s) \<and>
           targetFolder_of E folder t = CHR ''/'' # join_with CHR ''/'' S"
proof -
  define T where "T = String_of_nat t"
  define X where "X = folder @ ''_'' @ T"
  define P where "P = uploadDir E @ CHR ''/'' # X"
  define S where "S = foldl (normalize_step False) [] (split_at CHR ''/'' P)"
  have T: "T \<noteq> []" "CHR ''/'' \<notin> set T"
    by (simp_all add: T_def String_of_nat_not_Nil String_of_nat_no_slash)
  have "last T \<in> set T" using T(1) by simp
  with T(2) have lastT: "last T \<noteq> CHR ''/''" by auto
  have X: "X \<noteq> []" by (simp add: X_def)
  have lastP: "last P \<noteq> CHR ''/''" using T(1) lastT by (simp add: P_def X_def)
  have hdP: "hd P = CHR ''/''" "P \<noteq> []" using assms by (simp_all add: P_def)
  have tf: "targetFolder_of E folder t = path_normalize P"
    using assms(1) X by (simp add: targetFolder_of_def path_join_def P_def X_def T_def)
  have plain: "\<forall>s \<in> set S. plain_segment s"
    unfolding S_def
    by (rule foldl_normalize_keeps_plain) (auto dest: split_at_segments)
  define L where "L = last (split_at CHR ''/'' folder) @ ''_'' @ T"
  have "last (split_at CHR ''/'' folder) \<in> set (split_at CHR ''/'' folder)"
    by (simp add: split_at_not_Nil)
  then have seg: "CHR ''/'' \<notin> set (last (split_at CHR ''/'' folder))"
    by (rule split_at_segments)
  have L: "plain_segment L"
  proof -
    have m: "CHR ''_'' \<in> set L" by (simp add: L_def)
    have "L \<noteq> []" using m by auto
    moreover have "L \<noteq> ''.''" using m by auto
    moreover have "L \<noteq> ''..''" using m by auto
    moreover have "CHR ''/'' \<notin> set L" using seg T(2) by (simp add: L_def)
    ultimately show ?thesis by (simp add: plain_segment_def)
  qed
  have "split_at CHR ''/'' X = butlast (split_at CHR ''/'' folder) @ [L]"
    unfolding X_def L_def using T(2) by (intro split_at_append_no_sep) simp
  then have "\<exists>pre. split_at CHR ''/'' P = pre @ [L]"
    by (simp add: P_def split_at_append_sep)
  then obtain pre where sp: "split_at CHR ''/'' P = pre @ [L]" ..
  have "S = normalize_step False (foldl (normalize_step False) [] pre) L"
    by (simp add: S_def sp)
  also have "\<dots> = foldl (normalize_step False) [] pre @ [L]"
    by (rule normalize_step_plain [OF L])
  finally have Sne: "S \<noteq> []" by simp
  have hdS: "hd S \<noteq> []" using Sne plain by (cases S) (auto simp: plain_segment_def)
  have q: "normalizeString P False = join_with CHR ''/'' S"
    by (simp add: normalizeString_def S_def)
  have "path_normalize P = CHR ''/'' # join_with CHR ''/'' S"
    using hdP lastP join_with_not_Nil [OF Sne hdS]
    by (simp add: path_normalize_def Let_def q)
  with Sne plain tf show ?thesis by auto
qed

section \<open>The finalised folder\<close>

lemma startsWith_split:
  assumes "startsWith nm (folder @ ''/'')"
  shows "nm = folder @ CHR ''/'' # substring nm (length folder + 1)"
proof -
  have "take (length folder + 1) nm = folder @ ''/''"
    using assms by (simp add: startsWith_def)
  then have "nm = (folder @ ''/'') @ drop (length folder + 1) nm"
    by (metis append_take_drop_id)
  then show ?thesis by (simp add: substring_def)
qed

text \<open>
  Claim C2 says that the files are written under the suffixed folder and that the rename then
  removes the suffix, so that the public folder name is the folder identifier. The rename
  goes to the base name of the suffixed folder: for the folder \<open>mathgame\<close> imported at time
  100 it renames \<open>mathgame_100\<close> to itself, and the record points below
  \<open>mathgame_100\<close>, not below \<open>mathgame\<close>. And an entry named \<open>g/../../evil.txt\<close> is
  written to \<open>/srv/evil.txt\<close>, outside the suffixed folder and outside the upload directory.
\<close>

theorem finalized_name_counterexample:
  "import_folder quiet_env mathgame_archive ''mathgame'' (JObj [(''title'', JStr ''Add'')])
       fresh_world = Done mathgame_record mathgame_world \<and>
   last (fs_log mathgame_world) =
     Rename ''/srv/uploads/mathgame_100'' ''/srv/uploads/mathgame_100'' \<and>
   filePath mathgame_record = ''/games/files/mathgame_100/index.html'' \<and>
   filePath mathgame_record \<noteq> ''/games/files/mathgame/index.html'' \<and>
   fs_log (snd (bulk_upload quiet_env (admin_request climbing_archive) fresh_world)) =
     [Mkdir ''/srv/uploads/g_100'',
      Mkdir ''/srv/uploads/g_100'',
      WriteFile ''/srv/uploads/g_100/metadata.json'' ''{}'',
      Mkdir ''/srv'',
      WriteFile ''/srv/evil.txt'' ''x'',
      Readdir ''/srv/uploads/g_100'',
      Rename ''/srv/uploads/g_100'' ''/srv/uploads/g_100'',
      Unlink ''/srv/uploads/3f2a'']"
  by code_simp

text \<open>
  Claim C2, amended. The import of a folder creates the upload directory joined with the
  folder identifier suffixed by an underscore and the clock reading; it writes every entry of
  the folder that is not a directory, in the order of the archive, to that suffixed folder
  joined with the entry's name relative to the folder; after all of them are written it
  renames the suffixed folder to the upload directory joined with its own base name, which
  is the last segment of the folder identifier with the suffix kept. The record's reference
  is \<open>/games/files/\<close>, that suffixed name, \<open>/index.html\<close>. When the upload directory is
  absolute, an entry whose name has no segment \<open>..\<close> is written inside the suffixed folder.
\<close>

theorem finalized_name_keeps_suffix:
  assumes "import_folder E entries folder meta w = Done g w'"
  shows "let stamp = String_of_nat (Date_now E (clock_reads w));
             kept = last (split_at CHR ''/'' folder) @ ''_'' @ stamp;
             tf = path_join (uploadDir E) (folder @ ''_'' @ stamp);
             selected = filter (\<lambda>en. startsWith (entryName en) (folder @ ''/'')) entries
         in fs_log w' = fs_log w @ Mkdir tf # folder_writes tf folder selected @
              [Readdir tf, Rename tf (path_join (uploadDir E) kept)] \<and>
            filePath g = ''/games/files/'' @ kept @ ''/index.html'' \<and>
            (uploadDir E \<noteq> [] \<and> hd (uploadDir E) = CHR ''/'' \<longrightarrow>
               (\<forall>en \<in> set selected. ''..'' \<notin> set (split_at CHR ''/'' (entryName en)) \<longrightarrow>
                  inside_folder tf
                    (path_join tf (substring (entryName en) (length folder + 1)))))"
proof -
  define t where "t = Date_now E (clock_reads w)"
  define tf where "tf = path_join (uploadDir E) (folder @ ''_'' @ String_of_nat t)"
  define selected where
    "selected = filter (\<lambda>en. startsWith (entryName en) (folder @ ''/'')) entries"
  have tf: "targetFolder_of E folder t = tf" by (simp add: tf_def targetFolder_of_def)
  have b: "path_basename tf = last (split_at CHR ''/'' folder) @ ''_'' @ String_of_nat t"
    unfolding tf [symmetric] by (rule path_basename_targetFolder)
  have log: "fs_log w' = fs_log w @ Mkdir tf # folder_writes tf folder selected @
      [Readdir tf, Rename tf (path_join (uploadDir E)
         (last (split_at CHR ''/'' folder) @ ''_'' @ String_of_nat t))]"
    using import_folder_log [OF assms]
    by (simp add: tf t_def [symmetric] selected_def destDir_of_def b)
  have url: "filePath g =
      ''/games/files/'' @ (last (split_at CHR ''/'' folder) @ ''_'' @ String_of_nat t) @
      ''/index.html''"
    using import_folder_Done(3) [OF assms]
    by (simp add: tf t_def [symmetric] serveUrl_of_def b)
  have inside: "inside_folder tf (path_join tf (substring (entryName en) (length folder + 1)))"
    if abs: "uploadDir E \<noteq> []" "hd (uploadDir E) = CHR ''/''"
      and en: "en \<in> set selected" and nd: "''..'' \<notin> set (split_at CHR ''/'' (entryName en))"
    for en
  proof -
    from targetFolder_plain [OF abs, of folder t] obtain S where
      S: "S \<noteq> []" "\<forall>s \<in> set S. plain_segment s" "tf = CHR ''/'' # join_with CHR ''/'' S"
      by (auto simp: tf)
    from en have "startsWith (entryName en) (folder @ ''/'')" by (simp add: selected_def)
    then have "entryName en = folder @ CHR ''/'' # substring (entryName en) (length folder + 1)"
      by (rule startsWith_split)
    then have "split_at CHR ''/'' (entryName en) = split_at CHR ''/'' folder @
        split_at CHR ''/'' (substring (entryName en) (length folder + 1))"
      by (metis split_at_append_sep)
    with nd have "''..'' \<notin> set (split_at CHR ''/'' (substring (entryName en) (length folder + 1)))"
      by simp
    then show ?thesis by (rule path_join_inside [OF S])
  qed
  show ?thesis
    unfolding Let_def t_def [symmetric] tf_def [symmetric] selected_def [symmetric]
    using log url inside by blast
qed

theorem finalized_name_keeps_suffix_witness:
  "import_folder quiet_env mathgame_archive ''mathgame'' (JObj [(''title'', JStr ''Add'')])
       fresh_world = Done mathgame_record mathgame_world \<and>
   fs_log mathgame_world = fs_log fresh_world @ Mkdir ''/srv/uploads/mathgame_100'' #
     folder_writes ''/srv/uploads/mathgame_100'' ''mathgame'' mathgame_archive @
     [Readdir ''/srv/uploads/mathgame_100'',
      Rename ''/srv/uploads/mathgame_100'' ''/srv/uploads/mathgame_100''] \<and>
   filePath mathgame_record = ''/games/files/mathgame_100/index.html'' \<and>
   list_all (\<lambda>en. inside_folder ''/srv/uploads/mathgame_100''
                (path_join ''/srv/uploads/mathgame_100''
                   (substring (entryName en) (length ''mathgame'' + 1)))) mathgame_archive"
proof -
  have h: "import_folder quiet_env mathgame_archive ''mathgame''
      (JObj [(''title'', JStr ''Add'')]) fresh_world = Done mathgame_record mathgame_world"
    by code_simp
  have stamp: "String_of_nat (Date_now quiet_env (clock_reads fresh_world)) = ''100''"
    by code_simp
  have kept: "last (split_at CHR ''/'' ''mathgame'') @ ''_'' @ ''100'' = ''mathgame_100''"
    by code_simp
  have tf: "path_join (uploadDir quiet_env) (''mathgame'' @ ''_'' @ ''100'') =
      ''/srv/uploads/mathgame_100''"
    by code_simp
  have dest: "path_join (uploadDir quiet_env) ''mathgame_100'' = ''/srv/uploads/mathgame_100''"
    by code_simp
  have sel: "filter (\<lambda>en. startsWith (entryName en) (''mathgame'' @ ''/'')) mathgame_archive =
      mathgame_archive"
    by code_simp
  have abs: "uploadDir quiet_env \<noteq> [] \<and> hd (uploadDir quiet_env) = CHR ''/''"
    by (simp add: quiet_env_def)
  have nd: "\<forall>en \<in> set mathgame_archive. ''..'' \<notin> set (split_at CHR ''/'' (entryName en))"
    by code_simp
  note t = finalized_name_keeps_suffix [OF h, unfolded Let_def stamp kept tf dest sel]
  from t abs nd have
    "\<forall>en \<in> set mathgame_archive. inside_folder ''/srv/uploads/mathgame_100''
        (path_join ''/srv/uploads/mathgame_100''
           (substring (entryName en) (length ''mathgame'' + 1)))"
    by blast
  then have "list_all (\<lambda>en. inside_folder ''/srv/uploads/mathgame_100''
        (path_join ''/srv/uploads/mathgame_100''
           (substring (entryName en) (length ''mathgame'' + 1)))) mathgame_archive"
    by (simp only: list_all_iff)
  moreover from t have "filePath mathgame_record = ''/games/files/mathgame_100/index.html''"
    by simp
  moreover from t have "fs_log mathgame_world =
      fs_log fresh_world @ Mkdir ''/srv/uploads/mathgame_100'' #
      folder_writes ''/srv/uploads/mathgame_100'' ''mathgame'' mathgame_archive @
      [Readdir ''/srv/uploads/mathgame_100'',
       Rename ''/srv/uploads/mathgame_100'' ''/srv/uploads/mathgame_100'']"
    by blast
  ultimately show ?thesis using h by blast
qed

section \<open>An import in which nothing raises\<close>

lemma import_each_paths:
  "import_each E entries ps created w = Done c w' \<Longrightarrow>
     map filePath (drop (length created) c) = expected_paths E (clock_reads w) ps"
proof (induction ps arbitrary: created w)
  case Nil
  then show ?case by simp
next
  case (Cons p ps)
  obtain folder meta where p: "p = (folder, meta)" by (cases p)
  from Cons.prems obtain g w1 where
    one: "import_folder E entries folder meta w = Done g w1"
    and rest: "import_each E entries ps (created @ [g]) w1 = Done c w'"
    by (auto simp: p and_then_eq_Done)
  from import_each_Done [OF rest] obtain new where c: "c = (created @ [g]) @ new" by blast
  have "map filePath (drop (length (created @ [g])) c) = expected_paths E (clock_reads w1) ps"
    by (rule Cons.IH [OF rest])
  then have "map filePath new = expected_paths E (Suc (clock_reads w)) ps"
    using import_folder_Done(5) [OF one] by (simp add: c)
  then show ?case
    using import_folder_Done(3) [OF one] by (simp add: c p)
qed

lemma length_manifest_pairs:
  "length (manifest_pairs E es) =
     length (filter (\<lambda>e. \<not> isDirectory e \<and> is_manifest e \<and> JSON_parse E (content e) \<noteq> None) es)"
proof (induction es)
  case Nil
  show ?case by (simp add: manifest_pairs_Nil)
next
  case (Cons e es)
  then show ?case by (simp add: manifest_pairs_Cons split: option.splits)
qed

lemma manifest_pairs_no_null:
  assumes "\<forall>e \<in> set es. \<not> isDirectory e \<longrightarrow> is_manifest e \<longrightarrow> JSON_parse E (content e) \<noteq> Some JNull"
  shows "\<forall>(folder, meta) \<in> set (manifest_pairs E es). meta \<noteq> JNull"
  using assms
proof (induction es)
  case Nil
  show ?case by (simp add: manifest_pairs_Nil)
next
  case (Cons e es)
  then show ?case by (auto simp add: manifest_pairs_Cons split: option.splits)
qed

lemma manifest_pairs_skip:
  assumes "isDirectory bad \<or> \<not> is_manifest bad \<or> JSON_parse E (content bad) = None"
  shows "manifest_pairs E (pre @ bad # post) = manifest_pairs E (pre @ post)"
  using assms by (auto simp add: manifest_pairs_append manifest_pairs_Cons)

text \<open>When nothing raises and no manifest is \<open>null\<close>, the import succeeds.\<close>

lemma bulk_upload_quiet:
  assumes "role u = ''admin''"
    and "zip_entries f = Some entries"
    and "\<forall>log op. \<not> fs_raises E log op"
    and "\<forall>gs g. \<not> create_rejects E gs g"
    and "\<forall>e \<in> set entries. \<not> isDirectory e \<longrightarrow> is_manifest e \<longrightarrow>
           JSON_parse E (content e) \<noteq> Some JNull"
  shows "\<exists>new w'. bulk_upload E \<lparr>req_auth = Verified u, req_file = Some f\<rparr> w =
             (Response 200 (Imported (length new) (take 20 new)), w') \<and>
           games w' = games w @ new \<and>
           length new = length (manifest_pairs E entries) \<and>
           map filePath new = expected_paths E (clock_reads w) (manifest_pairs E entries)"
proof -
  from import_each_quiet [OF assms(3,4) manifest_pairs_no_null [OF assms(5)]]
  obtain c w1 where d: "import_each E entries (manifest_pairs E entries) [] w = Done c w1"
    by blast
  from import_each_Done [OF d] have g: "games w1 = games w @ c"
    and l: "length c = length (manifest_pairs E entries)" by auto
  from import_each_paths [OF d]
  have p: "map filePath c = expected_paths E (clock_reads w) (manifest_pairs E entries)" by simp
  have "try_import E f w =
      Done (Response 200 (Imported (length c) (take 20 c)))
        (w1\<lparr>fs_log := fs_log w1 @ [Unlink (file_path f)]\<rparr>)"
    using assms(2,3) d by (simp add: try_import_def scan_import_each fs_call_def slice_def)
  then have "bulk_upload E \<lparr>req_auth = Verified u, req_file = Some f\<rparr> w =
      (Response 200 (Imported (length c) (take 20 c)),
       w1\<lparr>fs_log := fs_log w1 @ [Unlink (file_path f)]\<rparr>)"
    by (simp add: bulk_upload_admin [OF assms(1)])
  with g l p show ?thesis by auto
qed

text \<open>
  Claim C3 says that next to a manifest that does not parse every sibling with a valid
  manifest still yields a record and the response is not an error. A sibling manifest whose
  text is \<open>null\<close> is valid JSON; with it the import answers with status 500 and no
  record is created.
\<close>

theorem null_sibling_counterexample:
  "\<not> isDirectory broken_manifest \<and> is_manifest broken_manifest \<and>
   JSON_parse quiet_env (content broken_manifest) = None \<and>
   \<not> isDirectory null_manifest \<and> is_manifest null_manifest \<and>
   JSON_parse quiet_env (content null_manifest) = Some JNull \<and>
   fst (bulk_upload quiet_env (admin_request [broken_manifest, null_manifest]) fresh_world) =
     Response 500 (Error ''Failed processing zip'') \<and>
   games (snd (bulk_upload quiet_env (admin_request [broken_manifest, null_manifest])
                 fresh_world)) = []"
  by code_simp

text \<open>
  Claim C3, amended. A manifest whose text does not parse is skipped: the loop goes on with
  the next entry and nothing else happens. When the other manifests of the archive parse to
  a value that is not \<open>null\<close> and no file system or database call raises, the response
  is the success response; it counts one record for each of the other manifests, and the
  records point, in order, to the folders of those manifests.
\<close>

theorem malformed_manifest_skipped:
  assumes "role u = ''admin''"
    and "zip_entries f = Some (pre @ bad # post)"
    and "\<not> isDirectory bad" and "is_manifest bad"
    and "JSON_parse E (content bad) = None"
    and "\<forall>log op. \<not> fs_raises E log op"
    and "\<forall>gs g. \<not> create_rejects E gs g"
    and "\<forall>e \<in> set (pre @ post). \<not> isDirectory e \<longrightarrow> is_manifest e \<longrightarrow>
           JSON_parse E (content e) \<noteq> Some JNull"
  shows "scan E (pre @ bad # post) (bad # post) c w1 = scan E (pre @ bad # post) post c w1 \<and>
         (\<exists>new w'. bulk_upload E \<lparr>req_auth = Verified u, req_file = Some f\<rparr> w =
              (Response 200 (Imported (length new) (take 20 new)), w') \<and>
            games w' = games w @ new \<and>
            length new =
              length (filter (\<lambda>e. \<not> isDirectory e \<and> is_manifest e \<and>
                                    JSON_parse E (content e) \<noteq> None) (pre @ post)) \<and>
            map filePath new = expected_paths E (clock_reads w) (manifest_pairs E (pre @ post)))"
proof -
  have skip: "scan E (pre @ bad # post) (bad # post) c w1 = scan E (pre @ bad # post) post c w1"
    using assms(3-5) by simp
  have same: "manifest_pairs E (pre @ bad # post) = manifest_pairs E (pre @ post)"
    using assms(5) by (intro manifest_pairs_skip) simp
  have nn: "\<forall>e \<in> set (pre @ bad # post). \<not> isDirectory e \<longrightarrow> is_manifest e \<longrightarrow>
      JSON_parse E (content e) \<noteq> Some JNull"
    using assms(5,8) by auto
  from bulk_upload_quiet [OF assms(1,2,6,7) nn, of w] skip show ?thesis
    by (simp add: same length_manifest_pairs)
qed

theorem malformed_manifest_skipped_witness:
  "role admin_user = ''admin'' \<and>
   zip_entries (sample_upload sibling_archive) = Some (mathgame_archive @ broken_manifest # good_folder) \<and>
   \<not> isDirectory broken_manifest \<and> is_manifest broken_manifest \<and>
   JSON_parse quiet_env (content broken_manifest) = None \<and>
   (\<forall>log op. \<not> fs_raises quiet_env log op) \<and>
   (\<forall>gs g. \<not> create_rejects quiet_env gs g) \<and>
   list_all (\<lambda>e. \<not> isDirectory e \<longrightarrow> is_manifest e \<longrightarrow>
      JSON_parse quiet_env (content e) \<noteq> Some JNull) (mathgame_archive @ good_folder) \<and>
   (\<exists>new w'. bulk_upload quiet_env
          \<lparr>req_auth = Verified admin_user, req_file = Some (sample_upload sibling_archive)\<rparr>
          fresh_world =
        (Response 200 (Imported (length new) (take 20 new)), w') \<and>
      games w' = games fresh_world @ new \<and>
      length new = 2 \<and>
      map filePath new =
        [''/games/files/mathgame_100/index.html'', ''/games/files/good_101/index.html''])"
proof -
  have a: "role admin_user = ''admin''" by (simp add: admin_user_def)
  have b: "zip_entries (sample_upload sibling_archive) =
      Some (mathgame_archive @ broken_manifest # good_folder)"
    by (simp add: sample_upload_def sibling_archive_def)
  have c: "\<not> isDirectory broken_manifest" by (simp add: broken_manifest_def file_entry_def)
  have d: "is_manifest broken_manifest" by code_simp
  have e: "JSON_parse quiet_env (content broken_manifest) = None" by code_simp
  have f: "\<forall>log op. \<not> fs_raises quiet_env log op" by (simp add: quiet_env_def)
  have g: "\<forall>gs g. \<not> create_rejects quiet_env gs g" by (simp add: quiet_env_def)
  have h: "\<forall>e \<in> set (mathgame_archive @ good_folder). \<not> isDirectory e \<longrightarrow> is_manifest e \<longrightarrow>
      JSON_parse quiet_env (content e) \<noteq> Some JNull"
    by code_simp
  have n: "length (filter (\<lambda>e. \<not> isDirectory e \<and> is_manifest e \<and>
      JSON_parse quiet_env (content e) \<noteq> None) (mathgame_archive @ good_folder)) = 2"
    by code_simp
  have p: "expected_paths quiet_env (clock_reads fresh_world)
      (manifest_pairs quiet_env (mathgame_archive @ good_folder)) =
      [''/games/files/mathgame_100/index.html'', ''/games/files/good_101/index.html'']"
    by code_simp
  note t = malformed_manifest_skipped [OF a b c d e f g h, where w = fresh_world, unfolded n p]
  have h': "list_all (\<lambda>e. \<not> isDirectory e \<longrightarrow> is_manifest e \<longrightarrow>
      JSON_parse quiet_env (content e) \<noteq> Some JNull) (mathgame_archive @ good_folder)"
    using h by (simp only: list_all_iff)
  show ?thesis
    using a b c d e f g h' t by blast
qed

section \<open>Candidate manifests\<close>

text \<open>
  Claim C4 says that an entry is a candidate manifest exactly when its last path segment is
  \<open>metadata.json\<close>. An entry named \<open>metadata.json\<close> at the root of the archive has that
  last segment and is not a directory, yet the loop passes it over: the guard asks for at
  least two segments. Its text parses, and still nothing is imported.
\<close>

theorem root_manifest_counterexample:
  "\<not> isDirectory root_manifest \<and>
   last (split_at CHR ''/'' (entryName root_manifest)) = ''metadata.json'' \<and>
   JSON_parse quiet_env (content root_manifest) = Some (JObj []) \<and>
   \<not> is_manifest root_manifest \<and>
   bulk_upload quiet_env (admin_request [root_manifest]) fresh_world =
     (Response 200 (Imported 0 []), fresh_world\<lparr>fs_log := [Unlink ''/srv/uploads/3f2a'']\<rparr>)"
  by code_simp

text \<open>
  Claim C4, amended. An entry that is not a directory is a candidate manifest exactly when
  its name has at least two segments of which the last is \<open>metadata.json\<close>, that is, when
  the name is some prefix followed by \<open>/metadata.json\<close>; the folder identifier is that
  prefix. The loop imports the manifests that parse one after the other in the order of the
  entries, and a folder identifier that occurs twice is imported twice.
\<close>

theorem manifest_candidates_in_order:
  "(is_manifest e \<longleftrightarrow> (\<exists>p. entryName e = p @ ''/metadata.json'')) \<and>
   (\<forall>p. entryName e = p @ ''/metadata.json'' \<longrightarrow> folder_of e = p) \<and>
   scan E entries es created w = import_each E entries (manifest_pairs E es) created w \<and>
   length (manifest_pairs E es) =
     length (filter (\<lambda>e. \<not> isDirectory e \<and> is_manifest e \<and>
                           JSON_parse E (content e) \<noteq> None) es)"
proof -
  have "is_manifest e \<longleftrightarrow> (\<exists>p. entryName e = p @ ''/metadata.json'')"
    using is_manifest_name [of e] name_is_manifest [of e] by blast
  moreover have "\<forall>p. entryName e = p @ ''/metadata.json'' \<longrightarrow> folder_of e = p"
    using name_is_manifest [of e] by blast
  ultimately show ?thesis
    using scan_import_each [of E entries es created w] length_manifest_pairs [of E es]
    by blast
qed

theorem manifest_candidates_in_order_witness:
  "entryName (file_entry ''a/b/metadata.json'' ''{}'') = ''a/b'' @ ''/metadata.json'' \<and>
   is_manifest (file_entry ''a/b/metadata.json'' ''{}'') \<and>
   folder_of (file_entry ''a/b/metadata.json'' ''{}'') = ''a/b'' \<and>
   length (manifest_pairs quiet_env (good_folder @ good_folder)) = 2"
proof -
  have h: "entryName (file_entry ''a/b/metadata.json'' ''{}'') = ''a/b'' @ ''/metadata.json''"
    by (simp add: file_entry_def)
  have n: "length (filter (\<lambda>e. \<not> isDirectory e \<and> is_manifest e \<and>
      JSON_parse quiet_env (content e) \<noteq> None) (good_folder @ good_folder)) = 2"
    by code_simp
  show ?thesis
    using h n manifest_candidates_in_order
      [where e = "file_entry ''a/b/metadata.json'' ''{}''" and E = quiet_env
         and es = "good_folder @ good_folder"]
    by auto
qed

section \<open>The response, the record and the entry point\<close>

lemma try_import_Done:
  assumes "try_import E f w = Done r w'"
  shows "\<exists>entries created w1. zip_entries f = Some entries \<and>
           scan E entries entries [] w = Done created w1 \<and>
           r = Response 200 (Imported (length created) (take 20 created)) \<and>
           w' = w1\<lparr>fs_log := fs_log w1 @ [Unlink (file_path f)]\<rparr>"
proof (cases "zip_entries f")
  case None
  with assms show ?thesis by (simp add: try_import_def)
next
  case (Some entries)
  with assms obtain created w1 u w2 where
    "scan E entries entries [] w = Done created w1"
    "fs_call E (Unlink (file_path f)) w1 = Done u w2"
    "r = Response 200 (Imported (length created) (slice 0 20 created))" "w' = w2"
    by (auto simp: try_import_def and_then_eq_Done)
  then show ?thesis using Some by (simp add: fs_call_Done slice_def)
qed

lemma bulk_upload_Imported:
  assumes "bulk_upload E req w = (Response st (Imported n items), w')"
  shows "\<exists>u f. req_auth req = Verified u \<and> role u = ''admin'' \<and> req_file req = Some f \<and>
           try_import E f w = Done (Response st (Imported n items)) w'"
proof (cases "req_auth req")
  case NoToken
  with assms show ?thesis by (simp add: bulk_upload_def authMiddleware_def)
next
  case InvalidToken
  with assms show ?thesis by (simp add: bulk_upload_def authMiddleware_def)
next
  case (Verified u)
  show ?thesis
  proof (cases "role u = ''admin''")
    case False
    with assms Verified show ?thesis by (simp add: bulk_upload_def authMiddleware_def)
  next
    case True
    show ?thesis
    proof (cases "req_file req")
      case None
      with assms Verified True show ?thesis by (simp add: bulk_upload_def authMiddleware_def)
    next
      case (Some f)
      with assms Verified True show ?thesis
        by (cases "try_import E f w") (simp_all add: bulk_upload_def authMiddleware_def)
    qed
  qed
qed

text \<open>
  Claim C6. When the handler answers with an import result, the status is 200, the
  collection has grown by exactly the records of this import, \<open>created\<close> is their number and
  \<open>items\<close> their first 20, and they point to the folders of the manifests in the order in
  which the manifests stand in the archive. When the archive cannot be read, the answer is
  status 500 with an error message and nothing has changed.
\<close>

theorem import_response:
  "(bulk_upload E req w = (Response st (Imported n items), w') \<longrightarrow>
      st = 200 \<and>
      (\<exists>created. games w' = games w @ created \<and> n = length created \<and>
         items = take 20 created \<and>
         (\<forall>f entries. req_file req = Some f \<longrightarrow> zip_entries f = Some entries \<longrightarrow>
            map filePath created =
              expected_paths E (clock_reads w) (manifest_pairs E entries)))) \<and>
   (req_auth req = Verified u \<longrightarrow> role u = ''admin'' \<longrightarrow> req_file req = Some f \<longrightarrow>
      zip_entries f = None \<longrightarrow>
      bulk_upload E req w = (Response 500 (Error ''Failed processing zip''), w))"
proof (intro conjI impI)
  assume a: "bulk_upload E req w = (Response st (Imported n items), w')"
  from bulk_upload_Imported [OF a] obtain f0 where
    f0: "req_file req = Some f0"
    and t: "try_import E f0 w = Done (Response st (Imported n items)) w'" by blast
  from try_import_Done [OF t] obtain entries created w1 where
    z: "zip_entries f0 = Some entries"
    and s: "scan E entries entries [] w = Done created w1"
    and r: "st = 200" "n = length created" "items = take 20 created"
    and w': "w' = w1\<lparr>fs_log := fs_log w1 @ [Unlink (file_path f0)]\<rparr>" by auto
  have d: "import_each E entries (manifest_pairs E entries) [] w = Done created w1"
    using s by (simp add: scan_import_each)
  from import_each_Done [OF d] have g: "games w' = games w @ created" by (auto simp: w')
  from import_each_paths [OF d]
  have p: "map filePath created = expected_paths E (clock_reads w) (manifest_pairs E entries)"
    by simp
  show "st = 200" by (rule r(1))
  show "\<exists>created. games w' = games w @ created \<and> n = length created \<and>
         items = take 20 created \<and>
         (\<forall>f entries. req_file req = Some f \<longrightarrow> zip_entries f = Some entries \<longrightarrow>
            map filePath created =
              expected_paths E (clock_reads w) (manifest_pairs E entries))"
    using g r(2,3) p f0 z by auto
next
  assume "req_auth req = Verified u" "role u = ''admin''" "req_file req = Some f"
    "zip_entries f = None"
  then show "bulk_upload E req w = (Response 500 (Error ''Failed processing zip''), w)"
    by (simp add: bulk_upload_def authMiddleware_def try_import_def)
qed


theorem import_response_witness:
  "fst (bulk_upload quiet_env (admin_request sibling_archive) fresh_world) =
     Response 200 (Imported 2 [mathgame_record,
                               untitled_record ''/games/files/good_101/index.html'']) \<and>
   (\<exists>created.
      games (snd (bulk_upload quiet_env (admin_request sibling_archive) fresh_world)) =
        games fresh_world @ created \<and>
      2 = length created \<and>
      [mathgame_record, untitled_record ''/games/files/good_101/index.html''] =
        take 20 created) \<and>
   bulk_upload quiet_env
     \<lparr>req_auth = Verified admin_user,
      req_file = Some \<lparr>file_path = ''/srv/uploads/9c1d'', zip_entries = None\<rparr>\<rparr> fresh_world =
     (Response 500 (Error ''Failed processing zip''), fresh_world)"
proof -
  define res where "res = bulk_upload quiet_env (admin_request sibling_archive) fresh_world"
  have r: "fst res = Response 200 (Imported 2 [mathgame_record,
      untitled_record ''/games/files/good_101/index.html''])"
    unfolding res_def by code_simp
  have h: "bulk_upload quiet_env (admin_request sibling_archive) fresh_world =
      (Response 200 (Imported 2 [mathgame_record,
         untitled_record ''/games/files/good_101/index.html'']), snd res)"
    using r by (simp add: res_def [symmetric] prod_eq_iff)
  have a: "role admin_user = ''admin''" by (simp add: admin_user_def)
  note t = import_response [where E = quiet_env and req = "admin_request sibling_archive"
      and w = fresh_world and st = 200 and n = 2 and w' = "snd res"
      and items = "[mathgame_record, untitled_record ''/games/files/good_101/index.html'']"]
  note z = import_response [where E = quiet_env and w = fresh_world and u = admin_user
      and req = "\<lparr>req_auth = Verified admin_user,
        req_file = Some \<lparr>file_path = ''/srv/uploads/9c1d'', zip_entries = None\<rparr>\<rparr>"
      and f = "\<lparr>file_path = ''/srv/uploads/9c1d'', zip_entries = None\<rparr>"]
  from t h have "\<exists>created. games (snd res) = games fresh_world @ created \<and>
      2 = length created \<and>
      [mathgame_record, untitled_record ''/games/files/good_101/index.html''] = take 20 created"
    by blast
  moreover from z a have "bulk_upload quiet_env
     \<lparr>req_auth = Verified admin_user,
      req_file = Some \<lparr>file_path = ''/srv/uploads/9c1d'', zip_entries = None\<rparr>\<rparr> fresh_world =
     (Response 500 (Error ''Failed processing zip''), fresh_world)"
    by simp
  ultimately show ?thesis using r by (simp add: res_def)
qed

text \<open>
  Claim C5. The record created from a parsed manifest has the documented default in every
  field that the manifest does not have: the title \<open>Untitled\<close>, the empty string for
  description, category, lesson title and lesson content, the empty sequence for tags and
  quizzes.
\<close>

theorem missing_fields_defaulted:
  assumes "import_folder E entries folder meta w = Done g w'"
  shows "games w' = games w @ [g] \<and>
         (own_property meta ''title'' = None \<longrightarrow> title g = JStr ''Untitled'') \<and>
         (own_property meta ''description'' = None \<longrightarrow> description g = JStr []) \<and>
         (own_property meta ''category'' = None \<longrightarrow> category g = JStr []) \<and>
         (own_property meta ''tags'' = None \<longrightarrow> tags g = JArr []) \<and>
         (own_property meta ''quizzes'' = None \<longrightarrow> quizzes g = JArr []) \<and>
         (own_property meta ''lessonTitle'' = None \<longrightarrow> lesson_title (lesson g) = JStr []) \<and>
         (own_property meta ''lessonContent'' = None \<longrightarrow>
            lesson_content (lesson g) = JStr [])"
proof -
  have nn: "meta \<noteq> JNull" by (rule import_folder_Done(1) [OF assms])
  from import_folder_Done(2) [OF assms] obtain url where
    "game_literal meta url w' = Done g w'" by blast
  then have g: "g = \<lparr>title = or_else (own_property meta ''title'') (JStr ''Untitled''),
           description = or_else (own_property meta ''description'') (JStr []),
           category = or_else (own_property meta ''category'') (JStr []),
           tags = or_else (own_property meta ''tags'') (JArr []),
           filePath = url,
           lesson = \<lparr>lesson_title = or_else (own_property meta ''lessonTitle'') (JStr []),
                     lesson_content = or_else (own_property meta ''lessonContent'') (JStr [])\<rparr>,
           quizzes = or_else (own_property meta ''quizzes'') (JArr []),
           leaderboard = []\<rparr>"
    by (simp add: game_literal_value [OF nn])
  have "games w' = games w @ [g]" by (rule import_folder_Done(4) [OF assms])
  then show ?thesis by (simp add: g or_else_def)
qed

theorem missing_fields_defaulted_witness:
  "import_folder quiet_env good_folder ''good'' (JObj []) fresh_world =
     Done (untitled_record ''/games/files/good_100/index.html'') good_world \<and>
   title (untitled_record ''/games/files/good_100/index.html'') = JStr ''Untitled'' \<and>
   description (untitled_record ''/games/files/good_100/index.html'') = JStr [] \<and>
   category (untitled_record ''/games/files/good_100/index.html'') = JStr [] \<and>
   tags (untitled_record ''/games/files/good_100/index.html'') = JArr [] \<and>
   quizzes (untitled_record ''/games/files/good_100/index.html'') = JArr [] \<and>
   lesson (untitled_record ''/games/files/good_100/index.html'') =
     \<lparr>lesson_title = JStr [], lesson_content = JStr []\<rparr>"
proof -
  have h: "import_folder quiet_env good_folder ''good'' (JObj []) fresh_world =
     Done (untitled_record ''/games/files/good_100/index.html'') good_world"
    by code_simp
  show ?thesis
    using h missing_fields_defaulted [OF h] by (simp add: own_property_def)
qed

text \<open>
  Claim C9 says that every manifest that parses yields a record. A manifest whose text is
  \<open>null\<close> parses, its folder is materialised, and then the property read throws: no record
  is created.
\<close>

theorem null_manifest_counterexample:
  "\<not> isDirectory null_manifest \<and> is_manifest null_manifest \<and>
   JSON_parse quiet_env (content null_manifest) = Some JNull \<and>
   fst (bulk_upload quiet_env (admin_request [null_manifest]) fresh_world) =
     Response 500 (Error ''Failed processing zip'') \<and>
   games (snd (bulk_upload quiet_env (admin_request [null_manifest]) fresh_world)) = []"
  by code_simp

text \<open>
  Claim C9, amended. The loop never looks for an \<open>index.html\<close> among the entries. For every
  manifest that parses to a value other than \<open>null\<close>, whatever the entries of the archive
  are, and provided no file system or database call raises, one record is created and the
  loop goes on; the record's reference is \<open>/games/files/\<close>, the name of the materialised
  folder, \<open>/index.html\<close>.
\<close>

theorem record_without_index_check:
  assumes "\<not> isDirectory e" and "is_manifest e"
    and "JSON_parse E (content e) = Some meta" and "meta \<noteq> JNull"
    and "\<forall>log op. \<not> fs_raises E log op"
    and "\<forall>gs g. \<not> create_rejects E gs g"
  shows "\<exists>g w'. import_folder E entries (folder_of e) meta w = Done g w' \<and>
           scan E entries (e # rest) created w = scan E entries rest (created @ [g]) w' \<and>
           games w' = games w @ [g] \<and>
           filePath g = ''/games/files/'' @ last (split_at CHR ''/'' (folder_of e)) @ ''_'' @
             String_of_nat (Date_now E (clock_reads w)) @ ''/index.html''"
proof -
  from import_folder_quiet [OF assms(5,6,4)] obtain g w' where
    d: "import_folder E entries (folder_of e) meta w = Done g w'" by blast
  have "scan E entries (e # rest) created w = scan E entries rest (created @ [g]) w'"
    using assms(1-3) d by simp
  moreover have "games w' = games w @ [g]" by (rule import_folder_Done(4) [OF d])
  moreover have "filePath g = ''/games/files/'' @ last (split_at CHR ''/'' (folder_of e)) @
      ''_'' @ String_of_nat (Date_now E (clock_reads w)) @ ''/index.html''"
    using import_folder_Done(3) [OF d]
    by (simp add: serveUrl_of_def path_basename_targetFolder)
  ultimately show ?thesis using d by blast
qed

theorem record_without_index_check_witness:
  "\<not> isDirectory noindex_manifest \<and> is_manifest noindex_manifest \<and>
   JSON_parse quiet_env (content noindex_manifest) = Some (JObj []) \<and>
   JObj [] \<noteq> JNull \<and>
   (\<forall>log op. \<not> fs_raises quiet_env log op) \<and>
   (\<forall>gs g. \<not> create_rejects quiet_env gs g) \<and>
   filter (\<lambda>en. entryName en = ''noindex/index.html'') [noindex_manifest] = [] \<and>
   (\<exists>g w'. import_folder quiet_env [noindex_manifest] (folder_of noindex_manifest) (JObj [])
              fresh_world = Done g w' \<and>
      games w' = games fresh_world @ [g] \<and>
      filePath g = ''/games/files/noindex_100/index.html'')"
proof -
  have a: "\<not> isDirectory noindex_manifest" by (simp add: noindex_manifest_def file_entry_def)
  have b: "is_manifest noindex_manifest" by code_simp
  have c: "JSON_parse quiet_env (content noindex_manifest) = Some (JObj [])" by code_simp
  have d: "JObj [] \<noteq> JNull" by simp
  have e: "\<forall>log op. \<not> fs_raises quiet_env log op" by (simp add: quiet_env_def)
  have f: "\<forall>gs g. \<not> create_rejects quiet_env gs g" by (simp add: quiet_env_def)
  have n: "filter (\<lambda>en. entryName en = ''noindex/index.html'') [noindex_manifest] = []"
    by (simp add: noindex_manifest_def file_entry_def)
  have p: "''/games/files/'' @ last (split_at CHR ''/'' (folder_of noindex_manifest)) @ ''_'' @
      String_of_nat (Date_now quiet_env (clock_reads fresh_world)) @ ''/index.html'' =
      ''/games/files/noindex_100/index.html''"
    by code_simp
  note t = record_without_index_check [OF a b c d e f, where entries = "[noindex_manifest]"
      and w = fresh_world, unfolded p]
  show ?thesis
    using a b c d e f n t by blast
qed

end
